theory Spec2Isabelle
  imports Main "HOL-Library.List_Lexorder" "HOL-Library.AList"
begin

section \<open>Python values and strings\<close>

text \<open>
  Python strings are sequences of Unicode code points, and \<open>flushCache\<close> builds a string
  with the code point U+FFFD, which does not fit the 8-bit \<open>char\<close>. A string is therefore a
  list of code points; \<open>ustr\<close> turns an ASCII literal into one. Strings are compared
  lexicographically by code point (\<open>HOL-Library.List_Lexorder\<close>), which is the order of
  Python's \<open>str\<close> and of the datastore's string properties.
\<close>

type_synonym ustring = "nat list"

definition ustr :: "string \<Rightarrow> ustring" where
  "ustr s = map of_char s"

text \<open>\<open>s.rstrip(chars)\<close>: drop every trailing character that occurs in \<open>chars\<close>.\<close>

definition rstrip :: "ustring \<Rightarrow> ustring \<Rightarrow> ustring" where
  "rstrip s chars = rev (dropWhile (\<lambda>c. c \<in> set chars) (rev s))"

text \<open>\<open>s.endswith(suffix)\<close>.\<close>

definition endswith :: "ustring \<Rightarrow> ustring \<Rightarrow> bool" where
  "endswith s suffix =
     (length suffix \<le> length s \<and> drop (length s - length suffix) s = suffix)"

text \<open>\<open>sep.join(parts)\<close>.\<close>

fun join :: "ustring \<Rightarrow> ustring list \<Rightarrow> ustring" where
  "join sep [] = []"
| "join sep [x] = x"
| "join sep (x # y # ys) = x @ sep @ join sep (y # ys)"

text \<open>The values that travel through the cache: arguments, defaults, results.\<close>

datatype pyval = PyNone | PyBool bool | PyInt int | PyStr ustring

section \<open>The datastore kind \<open>viur-cache\<close>\<close>

text \<open>
  An entity of kind \<open>viur-cache\<close> has the four properties \<open>wrapF\<close> writes: \<open>data\<close>,
  \<open>creationtime\<close>, \<open>path\<close> and \<open>content-type\<close>. A \<open>datetime\<close> is a count of microseconds.
  The kind is an association list from key names to entities; \<open>db.Put\<close> overwrites, so a
  store reached through \<open>db.Put\<close> has pairwise distinct keys.
\<close>

record CacheEntry =
  e_data :: pyval
  e_creationtime :: int
  e_path :: ustring
  e_content_type :: ustring

type_synonym 'k datastore = "('k \<times> CacheEntry) list"

datatype filterOp = PathEq | PathGt | PathLt

fun matches :: "filterOp \<times> ustring \<Rightarrow> CacheEntry \<Rightarrow> bool" where
  "matches (PathEq, v) e = (e_path e = v)"
| "matches (PathGt, v) e = (e_path e > v)"
| "matches (PathLt, v) e = (e_path e < v)"

text \<open>\<open>db.Query(viurCacheName).filter(..).filter(..).iter(keysOnly=True)\<close>.\<close>

definition db_Query :: "(filterOp \<times> ustring) list \<Rightarrow> 'k datastore \<Rightarrow> 'k list" where
  "db_Query filters store =
     map fst (filter (\<lambda>(k, e). list_all (\<lambda>f. matches f e) filters) store)"

definition db_Delete :: "'k \<Rightarrow> 'k datastore \<Rightarrow> 'k datastore" where
  "db_Delete k store = filter (\<lambda>(k', e). k' \<noteq> k) store"

definition db_Get :: "'k \<Rightarrow> 'k datastore \<Rightarrow> CacheEntry option" where
  "db_Get k store = map_of store k"

definition db_Put :: "'k \<Rightarrow> CacheEntry \<Rightarrow> 'k datastore \<Rightarrow> 'k datastore" where
  "db_Put k e store = AList.update k e store"

section \<open>flushCache\<close>

text \<open>
  The body of the deferred task \<open>flushCache(prefix)\<close>: both \<open>for item in items:
  db.Delete(item)\<close> loops are folds of \<open>db_Delete\<close> over the keys the query returned.
\<close>

definition flushCache :: "ustring \<Rightarrow> 'k datastore \<Rightarrow> 'k datastore" where
  "flushCache prefix store =
     (let items = db_Query [(PathEq, rstrip prefix (ustr ''*''))] store;
          store1 = fold db_Delete items store
      in if endswith prefix (ustr ''*'') then
           (let items2 = db_Query [(PathGt, rstrip prefix (ustr ''*'')),
                                   (PathLt, rstrip prefix (ustr ''*'') @ [0xFFFD])] store1
            in fold db_Delete items2 store1)
         else store1)"

section \<open>keyFromArgs\<close>

text \<open>
  What \<open>keyFromArgs\<close> reads of the callable \<open>f\<close>: \<open>f.__code__.co_varnames\<close>,
  \<open>f.__code__.co_argcount\<close> and \<open>f.func_defaults\<close>. The last one is the Python 2 name
  of the tuple of default values (\<open>None\<close> when no parameter has a default). A Python 3
  function keeps the tuple in \<open>__defaults__\<close> and has no attribute \<open>func_defaults\<close>,
  unless one is set on it; reading a missing attribute raises \<open>AttributeError\<close>.
\<close>

datatype 'a attribute = NoSuchAttribute | Attribute 'a

record pyfunction =
  co_varnames :: "ustring list"
  co_argcount :: nat
  func_defaults :: "pyval list option attribute"

text \<open>A Python dictionary whose items are listed later: an association list, written with
  \<open>AList.update\<close> (an existing key keeps its place, a new one goes to the end).\<close>

type_synonym pydict = "(ustring \<times> pyval) list"

datatype error =
  AssertionError ustring | IndexError | AttributeError | OverflowError | HandlerError ustring

text \<open>The result of calling the hook \<open>conf["viur.cacheEnvironmentKey"]\<close>.\<close>

datatype environmentKey = EnvironmentKey pyval | RuntimeError

record user =
  user_key :: pyval

record request =
  req_disableCache :: bool
  req_args :: "ustring list"
  req_pathlist :: "ustring list"
  req_language :: ustring
  req_CURRENT_VERSION_ID :: "ustring option"

record conf =
  viur_disableCache :: bool
  viur_cacheEnvironmentKey :: "environmentKey option"

text \<open>The ambient context of a call: \<open>conf\<close>, \<open>request.current.get()\<close> and
  \<open>utils.getCurrentUser()\<close> (\<open>None\<close> for a guest).\<close>

record callContext =
  ctx_conf :: conf
  ctx_request :: request
  ctx_user :: "user option"

text \<open>\<open>argsOrder = list(f.__code__.co_varnames)[1: f.__code__.co_argcount]\<close>.\<close>

definition argsOrder_of :: "pyfunction \<Rightarrow> ustring list" where
  "argsOrder_of f = drop 1 (take (co_argcount f) (co_varnames f))"

text \<open>
  The loop over the reversed defaults. \<open>reversedArgsOrder.pop(0)\<close> raises \<open>IndexError\<close>
  on an empty list, which happens when the first parameter has a default as well.
\<close>

fun mapDefaults :: "pyval list \<Rightarrow> ustring list \<Rightarrow> pydict \<Rightarrow> error + pydict" where
  "mapDefaults [] reversedArgsOrder res = Inr res"
| "mapDefaults (defaultValue # ds) [] res = Inl IndexError"
| "mapDefaults (defaultValue # ds) (n # ns) res =
     mapDefaults ds ns (AList.update n defaultValue res)"

text \<open>The loop \<open>for idx in range(0, min(len(args), len(argsOrder)))\<close>, on the pair
  \<open>(setArgs, res)\<close>.\<close>

definition mapArgs ::
  "ustring list \<Rightarrow> ustring list \<Rightarrow> pyval list \<Rightarrow> pydict \<Rightarrow> ustring list \<times> pydict" where
  "mapArgs evaluatedArgs argsOrder args res =
     fold (\<lambda>idx (setArgs, res).
             if argsOrder ! idx \<in> set evaluatedArgs
             then (setArgs @ [argsOrder ! idx], AList.update (argsOrder ! idx) (args ! idx) res)
             else (setArgs, res))
       [0 ..< min (length args) (length argsOrder)] ([], res)"

text \<open>The loop \<open>for k, v in kwargs.items()\<close>, with its \<open>raise AssertionError\<close>.\<close>

fun mapKwargs :: "ustring list \<Rightarrow> ustring list \<Rightarrow> pydict \<Rightarrow> pydict \<Rightarrow> error + pydict" where
  "mapKwargs evaluatedArgs setArgs [] res = Inr res"
| "mapKwargs evaluatedArgs setArgs ((k, v) # kwargs) res =
     (if k \<in> set evaluatedArgs then
        (if k \<in> set setArgs then Inl (AssertionError k)
         else mapKwargs evaluatedArgs setArgs kwargs (AList.update k v res))
      else mapKwargs evaluatedArgs setArgs kwargs res)"

text \<open>\<open>s.split('.')[0]\<close>.\<close>

definition split_dot_first :: "ustring \<Rightarrow> ustring" where
  "split_dot_first s = takeWhile (\<lambda>c. c \<noteq> 46) s"

text \<open>
  \<open>keyFromArgs\<close>, in the order of the source. \<open>resolveArgs\<close> is the part that fills
  \<open>res\<close> from the defaults, \<open>args\<close> and \<open>kwargs\<close>; it raises (\<open>Inl\<close>) or gives
  the dictionary. The first thing that can fail is the read of \<open>f.func_defaults\<close>.
\<close>

definition resolveArgs ::
  "pyfunction \<Rightarrow> ustring list \<Rightarrow> pyval list \<Rightarrow> pydict \<Rightarrow> error + pydict" where
  "resolveArgs f evaluatedArgs args kwargs =
     (let argsOrder = argsOrder_of f in
      case func_defaults f of
        NoSuchAttribute \<Rightarrow> Inl AttributeError
      | Attribute defaults \<Rightarrow>
          (case mapDefaults (rev (case defaults of None \<Rightarrow> [] | Some ds \<Rightarrow> ds))
                  (rev argsOrder) [] of
             Inl err \<Rightarrow> Inl err
           | Inr res \<Rightarrow>
               (case mapArgs evaluatedArgs argsOrder args res of
                  (setArgs, res) \<Rightarrow> mapKwargs evaluatedArgs setArgs kwargs res)))"

text \<open>The block \<open>if userSensitive: ...\<close>; \<open>None\<close> is its \<open>return (None)\<close>.\<close>

definition userItems :: "user option \<Rightarrow> int \<Rightarrow> pydict \<Rightarrow> pydict option" where
  "userItems user userSensitive res =
     (if userSensitive \<noteq> 0 then
        (if userSensitive = 1 \<and> user \<noteq> None then None
         else if userSensitive = 2 then
           (case user of
              Some u \<Rightarrow> Some (AList.update (ustr ''__user'') (PyStr (ustr ''__ISUSER'')) res)
            | None \<Rightarrow> Some (AList.update (ustr ''__user'') PyNone res))
         else if userSensitive = 3 then
           (case user of
              Some u \<Rightarrow> Some (AList.update (ustr ''__user'') (user_key u) res)
            | None \<Rightarrow> Some (AList.update (ustr ''__user'') PyNone res))
         else Some res)
      else Some res)"

text \<open>
  The language, the environment key, the path and the application version; \<open>None\<close> is the
  \<open>return None\<close> of \<open>except RuntimeError\<close>. A version that cannot be read is the empty
  string.
\<close>

definition requestItems :: "conf \<Rightarrow> request \<Rightarrow> bool \<Rightarrow> ustring \<Rightarrow> pydict \<Rightarrow> pydict option" where
  "requestItems cnf currentRequest languageSensitive path res =
     (let res = (if languageSensitive
                 then AList.update (ustr ''__lang'') (PyStr (req_language currentRequest)) res
                 else res)
      in case viur_cacheEnvironmentKey cnf of
           Some RuntimeError \<Rightarrow> None
         | envKey \<Rightarrow>
             (let res = (case envKey of
                           Some (EnvironmentKey v) \<Rightarrow>
                             AList.update (ustr ''_cacheEnvironment'') v res
                         | _ \<Rightarrow> res);
                  res = AList.update (ustr ''__path'') (PyStr path) res;
                  appVersion = (case req_CURRENT_VERSION_ID currentRequest of
                                  Some v \<Rightarrow> split_dot_first v
                                | None \<Rightarrow> [])
              in Some (AList.update (ustr ''__appVersion'') (PyStr appVersion) res)))"

text \<open>
  The whole function. The digest \<open>sha512(str(res).encode("UTF8")).hexdigest()\<close> of the
  sorted item list belongs to Python's library and is the parameter \<open>sha512\<close>. The result
  is \<open>Inl\<close> for a raised exception, \<open>Inr None\<close> for \<open>return None\<close> and
  \<open>Inr (Some key)\<close> for a key. The \<open>logging\<close> calls are left out.
\<close>

definition keyFromArgs ::
  "(pydict \<Rightarrow> 'k) \<Rightarrow> callContext \<Rightarrow> pyfunction \<Rightarrow> int \<Rightarrow> bool \<Rightarrow> ustring list \<Rightarrow> ustring \<Rightarrow>
   pyval list \<Rightarrow> pydict \<Rightarrow> error + 'k option" where
  "keyFromArgs sha512 ctx f userSensitive languageSensitive evaluatedArgs path args kwargs =
     (case resolveArgs f evaluatedArgs args kwargs of
        Inl err \<Rightarrow> Inl err
      | Inr res \<Rightarrow>
          (case userItems (ctx_user ctx) userSensitive res of
             None \<Rightarrow> Inr None
           | Some res \<Rightarrow>
               (case requestItems (ctx_conf ctx) (ctx_request ctx) languageSensitive path res of
                  None \<Rightarrow> Inr None
                | Some res \<Rightarrow>
                    if \<not> list_all (\<lambda>x. x \<in> set (map fst res)) (argsOrder_of f) then Inr None
                    else Inr (Some (sha512 (sort_key fst res))))))"

text \<open>The decorator's assertion: no evaluated parameter starts with an underscore.\<close>

definition enableCache_assertion :: "ustring list \<Rightarrow> bool" where
  "enableCache_assertion evaluatedArgs =
     (\<not> list_ex (\<lambda>x. x \<noteq> [] \<and> hd x = 95) evaluatedArgs)"

text \<open>
  The parameters a call binds that are in \<open>evaluatedArgs\<close>: positionally (the arguments
  paired with the names of \<open>argsOrder\<close>, as far as both reach) and by keyword.
\<close>

definition evaluatedPositional :: "ustring list \<Rightarrow> ustring list \<Rightarrow> pyval list \<Rightarrow> pydict" where
  "evaluatedPositional evaluatedArgs argsOrder args =
     filter (\<lambda>(n, v). n \<in> set evaluatedArgs) (zip argsOrder args)"

definition evaluatedKeywords :: "ustring list \<Rightarrow> pydict \<Rightarrow> pydict" where
  "evaluatedKeywords evaluatedArgs kwargs = filter (\<lambda>(k, v). k \<in> set evaluatedArgs) kwargs"

text \<open>The parameters that have a default: the last \<open>len(func_defaults)\<close> names.\<close>

definition defaultedParams :: "pyfunction \<Rightarrow> ustring list" where
  "defaultedParams f =
     (case func_defaults f of
        Attribute (Some ds) \<Rightarrow> drop (length (argsOrder_of f) - length ds) (argsOrder_of f)
      | _ \<Rightarrow> [])"

text \<open>The callables on which the loop over the defaults runs through: \<open>func_defaults\<close>
  can be read, and the first parameter, which receives \<open>self\<close>, has no default.\<close>

definition wf_pyfunction :: "pyfunction \<Rightarrow> bool" where
  "wf_pyfunction f =
     (case func_defaults f of
        NoSuchAttribute \<Rightarrow> False
      | Attribute None \<Rightarrow> True
      | Attribute (Some ds) \<Rightarrow> length ds \<le> length (argsOrder_of f))"

section \<open>wrapCallable and wrapF\<close>

text \<open>
  What a request can observe and change: the datastore kind, the response's
  \<open>Content-Type\<close> header and the clock read by \<open>datetime.now()\<close> (microseconds). The
  list \<open>w_dbOps\<close> records the calls of \<open>db.Get\<close> and \<open>db.Put\<close> that \<open>wrapF\<close> makes, so
  that a run without store access is told from one that reads and finds nothing.
\<close>

datatype 'k dbOp = DbGet 'k | DbPut 'k

record 'k world =
  w_db :: "'k datastore"
  w_dbOps :: "'k dbOp list"
  w_contentType :: ustring
  w_now :: int

text \<open>
  The wrapped callable \<open>f(self, *args, **kwargs)\<close>: it returns a result and changes the
  world (it sets the content type, time passes), or it raises.
\<close>

type_synonym ('self, 'k) handler =
  "'self \<Rightarrow> pyval list \<Rightarrow> pydict \<Rightarrow> 'k world \<Rightarrow> error + pyval \<times> 'k world"

text \<open>\<open>xs[:k]\<close> for an integer \<open>k\<close>: a negative \<open>k\<close> counts from the end.\<close>

definition slice_to :: "'a list \<Rightarrow> int \<Rightarrow> 'a list" where
  "slice_to xs k = (if k < 0 then take (length xs - nat (- k)) xs else take (nat k) xs)"

text \<open>
  \<open>offset = -len(currentRequest.args) or len(currentRequest.pathlist)\<close> and
  \<open>path = "/" + "/".join(currentRequest.pathlist[: offset])\<close>.
\<close>

definition requestPath :: "request \<Rightarrow> ustring" where
  "requestPath currentRequest =
     (let offset = (if - int (length (req_args currentRequest)) \<noteq> 0
                    then - int (length (req_args currentRequest))
                    else int (length (req_pathlist currentRequest)))
      in ustr ''/'' @ join (ustr ''/'') (slice_to (req_pathlist currentRequest) offset))"

text \<open>
  The end of \<open>wrapF\<close>, reached when the request was not cached or is too old: call \<open>f\<close>,
  build the entity from its result, the clock and the content type as they are after the
  call, and \<open>db.Put\<close> it under the key.
\<close>

definition rebuild ::
  "('self, 'k) handler \<Rightarrow> 'self \<Rightarrow> pyval list \<Rightarrow> pydict \<Rightarrow> 'k \<Rightarrow> ustring \<Rightarrow> 'k world \<Rightarrow>
   error + pyval \<times> 'k world" where
  "rebuild f self args kwargs key path s =
     (case f self args kwargs s of
        Inl err \<Rightarrow> Inl err
      | Inr (res, s') \<Rightarrow>
          (let dbEntity = \<lparr>e_data = res, e_creationtime = w_now s', e_path = path,
                           e_content_type = w_contentType s'\<rparr>
           in Inr (res, s'\<lparr>w_db := db_Put key dbEntity (w_db s'),
                           w_dbOps := w_dbOps s' @ [DbPut key]\<rparr>)))"

text \<open>
  A \<open>datetime\<close> counts the microseconds since 0001-01-01 00:00:00 and ends with
  9999-12-31 23:59:59.999999. \<open>timedelta(seconds=t)\<close> raises \<open>OverflowError\<close> when its
  days, \<open>t // 86400\<close>, exceed 999999999 in magnitude, and \<open>now - delta\<close> raises it when
  the result leaves the range of \<open>datetime\<close>.
\<close>

definition datetime_max :: int where
  "datetime_max = 3652059 * 86400 * 1000000 - 1"

definition timedelta_seconds :: "int \<Rightarrow> error + int" where
  "timedelta_seconds t =
     (if - 999999999 \<le> t div 86400 \<and> t div 86400 \<le> 999999999 then Inr (t * 1000000)
      else Inl OverflowError)"

definition datetime_sub :: "int \<Rightarrow> int \<Rightarrow> error + int" where
  "datetime_sub now delta =
     (if 0 \<le> now - delta \<and> now - delta \<le> datetime_max then Inr (now - delta)
      else Inl OverflowError)"

text \<open>
  The condition \<open>not maxCacheTime or dbRes["creationtime"] > datetime.now() -
  timedelta(seconds=maxCacheTime)\<close>: its truth value, or the \<open>OverflowError\<close> of its
  right-hand side. \<open>not maxCacheTime\<close> holds for \<open>None\<close> and for 0, and then the
  right-hand side is not evaluated.
\<close>

definition cacheIsFresh :: "int option \<Rightarrow> CacheEntry \<Rightarrow> int \<Rightarrow> error + bool" where
  "cacheIsFresh maxCacheTime dbRes now =
     (case maxCacheTime of
        None \<Rightarrow> Inr True
      | Some t \<Rightarrow>
          if t = 0 then Inr True
          else
            (case timedelta_seconds t of
               Inl err \<Rightarrow> Inl err
             | Inr delta \<Rightarrow>
                 (case datetime_sub now delta of
                    Inl err \<Rightarrow> Inl err
                  | Inr limit \<Rightarrow> Inr (e_creationtime dbRes > limit))))"

text \<open>
  \<open>wrapF\<close>, for a callable with code \<open>code\<close> and behaviour \<open>f\<close>. The key is a string, and
  \<open>if not key\<close> holds for \<open>None\<close> and for the empty string. \<open>maxCacheTime\<close> is \<open>None\<close> or
  a number of seconds. An entity read from the store has its four properties, so
  \<open>if dbRes\<close> holds whenever one is found.
\<close>

definition wrapF ::
  "(pydict \<Rightarrow> ustring) \<Rightarrow> callContext \<Rightarrow> pyfunction \<Rightarrow> ('self, ustring) handler \<Rightarrow>
   ustring list \<Rightarrow> int \<Rightarrow> bool \<Rightarrow> ustring list \<Rightarrow> int option \<Rightarrow>
   'self \<Rightarrow> pyval list \<Rightarrow> pydict \<Rightarrow> ustring world \<Rightarrow> error + pyval \<times> ustring world" where
  "wrapF sha512 ctx code f urls userSensitive languageSensitive evaluatedArgs maxCacheTime
     self args kwargs s =
     (let currentRequest = ctx_request ctx in
      if viur_disableCache (ctx_conf ctx) \<or> req_disableCache currentRequest
      then f self args kwargs s
      else
        (let path = requestPath currentRequest in
         if path \<notin> set urls then f self args kwargs s
         else
           (case keyFromArgs sha512 ctx code userSensitive languageSensitive evaluatedArgs
                   path args kwargs of
              Inl err \<Rightarrow> Inl err
            | Inr None \<Rightarrow> f self args kwargs s
            | Inr (Some key) \<Rightarrow>
                if key = [] then f self args kwargs s
                else
                  (let dbRes = db_Get key (w_db s);
                       s1 = s\<lparr>w_dbOps := w_dbOps s @ [DbGet key]\<rparr>
                   in case dbRes of
                        None \<Rightarrow> rebuild f self args kwargs key path s1
                      | Some e \<Rightarrow>
                          (case cacheIsFresh maxCacheTime e (w_now s1) of
                             Inl err \<Rightarrow> Inl err
                           | Inr True \<Rightarrow> Inr (e_data e, s1\<lparr>w_contentType := e_content_type e\<rparr>)
                           | Inr False \<Rightarrow> rebuild f self args kwargs key path s1)))))"

section \<open>booleanBone\<close>

text \<open>\<open>str(value)\<close> for the values of the model; a number is written in decimal.\<close>

fun digits :: "nat \<Rightarrow> ustring" where
  "digits n = (if n < 10 then [48 + n] else digits (n div 10) @ [48 + n mod 10])"

fun py_str :: "pyval \<Rightarrow> ustring" where
  "py_str PyNone = ustr ''None''"
| "py_str (PyBool b) = (if b then ustr ''True'' else ustr ''False'')"
| "py_str (PyInt i) = (if i < 0 then ustr ''-'' @ digits (nat (- i)) else digits (nat i))"
| "py_str (PyStr s) = s"

text \<open>\<open>trueStrs = [str(True), u"1", u"yes"]\<close>.\<close>

definition trueStrs :: "ustring list" where
  "trueStrs = [py_str (PyBool True), ustr ''1'', ustr ''yes'']"

text \<open>
  \<open>serialize\<close> writes \<open>valuesCache.get(name, False)\<close> into the entity and returns it;
  \<open>unserialize\<close> changes \<open>valuesCache\<close> and returns \<open>True\<close>. The dictionaries are maps.
\<close>

definition serialize ::
  "(ustring \<rightharpoonup> pyval) \<Rightarrow> ustring \<Rightarrow> (ustring \<rightharpoonup> pyval) \<Rightarrow> (ustring \<rightharpoonup> pyval)" where
  "serialize valuesCache name entity =
     entity(name \<mapsto> (case valuesCache name of Some v \<Rightarrow> v | None \<Rightarrow> PyBool False))"

definition unserialize ::
  "(ustring \<rightharpoonup> pyval) \<Rightarrow> ustring \<Rightarrow> (ustring \<rightharpoonup> pyval) \<Rightarrow> bool \<times> (ustring \<rightharpoonup> pyval)" where
  "unserialize valuesCache name expando =
     (case expando name of
        Some val \<Rightarrow>
          if py_str val \<in> set trueStrs
          then (True, valuesCache(name \<mapsto> PyBool True))
          else (True, valuesCache(name \<mapsto> PyBool False))
      | None \<Rightarrow> (True, valuesCache))"

section \<open>Concrete handlers and contexts\<close>

text \<open>\<open>def render(self, id, order="asc")\<close>, \<open>def view(self, id, style="plain")\<close> and
  \<open>def listing(self, id, page)\<close>, with a readable \<open>func_defaults\<close>.\<close>

definition render :: pyfunction where
  "render = \<lparr>co_varnames = [ustr ''self'', ustr ''id'', ustr ''order''], co_argcount = 3,
              func_defaults = Attribute (Some [PyStr (ustr ''asc'')])\<rparr>"

definition view :: pyfunction where
  "view = \<lparr>co_varnames = [ustr ''self'', ustr ''id'', ustr ''style''], co_argcount = 3,
            func_defaults = Attribute (Some [PyStr (ustr ''plain'')])\<rparr>"

definition listing :: pyfunction where
  "listing = \<lparr>co_varnames = [ustr ''self'', ustr ''id'', ustr ''page''], co_argcount = 3,
               func_defaults = Attribute None\<rparr>"

text \<open>
  \<open>def render(self, id, order="asc")\<close> as Python 3 defines it, without \<open>func_defaults\<close>;
  \<open>def f(self=None, a=1)\<close>, whose first parameter has a default; and
  \<open>def g(self, __path)\<close>, a function whose parameter bears the name of an item that
  \<open>keyFromArgs\<close> adds itself.
\<close>

definition render_py3 :: pyfunction where
  "render_py3 = \<lparr>co_varnames = [ustr ''self'', ustr ''id'', ustr ''order''], co_argcount = 3,
                  func_defaults = NoSuchAttribute\<rparr>"

definition self_default :: pyfunction where
  "self_default = \<lparr>co_varnames = [ustr ''self'', ustr ''a''], co_argcount = 2,
                    func_defaults = Attribute (Some [PyNone, PyInt 1])\<rparr>"

definition path_param :: pyfunction where
  "path_param = \<lparr>co_varnames = [ustr ''self'', ustr ''__path''], co_argcount = 2,
                  func_defaults = Attribute None\<rparr>"

text \<open>A request for \<open>/page/view\<close> by a guest, caching enabled, no environment hook.\<close>

definition guest_ctx :: callContext where
  "guest_ctx =
     \<lparr>ctx_conf = \<lparr>viur_disableCache = False, viur_cacheEnvironmentKey = None\<rparr>,
      ctx_request = \<lparr>req_disableCache = False, req_args = [],
                     req_pathlist = [ustr ''page'', ustr ''view''], req_language = ustr ''en'',
                     req_CURRENT_VERSION_ID = Some (ustr ''v1.42'')\<rparr>,
      ctx_user = None\<rparr>"

definition alice :: user where
  "alice = \<lparr>user_key = PyStr (ustr ''alice'')\<rparr>"

definition bob :: user where
  "bob = \<lparr>user_key = PyStr (ustr ''bob'')\<rparr>"

text \<open>
  A stand-in digest for concrete runs (the names of the items, concatenated), a handler
  that renders a page, sets the content type and takes a second, and a world whose store
  holds one entry for \<open>render(5)\<close> at \<open>/page/view\<close>, written at \<open>created_at\<close>,
  2025-01-01 00:00:00.
\<close>

definition created_at :: int where
  "created_at = 63871286400000000"

definition name_digest :: "pydict \<Rightarrow> ustring" where
  "name_digest items = concat (map fst items)"

definition page_handler :: "(unit, ustring) handler" where
  "page_handler self args kwargs s =
     Inr (PyStr (ustr ''<html>new</html>''),
          s\<lparr>w_contentType := ustr ''text/html'', w_now := w_now s + 1000000\<rparr>)"

definition cached_entry :: CacheEntry where
  "cached_entry = \<lparr>e_data = PyStr (ustr ''<html>old</html>''), e_creationtime = created_at,
                    e_path = ustr ''/page/view'', e_content_type = ustr ''text/plain''\<rparr>"

definition world_at :: "int \<Rightarrow> ustring world" where
  "world_at now = \<lparr>w_db = [(ustr ''__appVersion__pathidorder'', cached_entry)], w_dbOps = [],
                    w_contentType = [], w_now = now\<rparr>"

text \<open>An entity at a given path, for the concrete stores below.\<close>

definition entry_at :: "string \<Rightarrow> CacheEntry" where
  "entry_at p = \<lparr>e_data = PyNone, e_creationtime = 0, e_path = ustr p, e_content_type = []\<rparr>"

section \<open>Properties of flushCache\<close>

lemma ustr_star: "ustr ''*'' = [42]"
  by (simp add: ustr_def)

lemma fold_db_Delete:
  "fold db_Delete ks store = filter (\<lambda>(k, e). k \<notin> set ks) store"
proof (induction ks arbitrary: store)
  case Nil
  show ?case by simp
next
  case (Cons k ks)
  have "fold db_Delete (k # ks) store = fold db_Delete ks (db_Delete k store)"
    by simp
  also have "\<dots> = filter (\<lambda>(k, e). k \<notin> set ks) (db_Delete k store)"
    by (rule Cons.IH)
  also have "\<dots> = filter (\<lambda>(k', e). k' \<notin> set (k # ks)) store"
    by (simp add: db_Delete_def split_def conj_commute)
  finally show ?case .
qed

text \<open>With distinct keys, deleting the keys a query returned removes the matching entities
  and nothing else.\<close>

lemma delete_queried_distinct:
  assumes "distinct (map fst store)"
  shows "fold db_Delete (db_Query fs store) store =
         filter (\<lambda>(k, e). \<not> list_all (\<lambda>f. matches f e) fs) store"
proof -
  have "\<And>k e. (k, e) \<in> set store \<Longrightarrow>
          (k \<notin> set (db_Query fs store)) = (\<not> list_all (\<lambda>f. matches f e) fs)"
  proof -
    fix k e assume ke: "(k, e) \<in> set store"
    have "k \<in> set (db_Query fs store) \<longleftrightarrow>
          (\<exists>e'. (k, e') \<in> set store \<and> list_all (\<lambda>f. matches f e') fs)"
      by (force simp: db_Query_def)
    also have "\<dots> \<longleftrightarrow> list_all (\<lambda>f. matches f e) fs"
      using ke assms by (auto dest: eq_key_imp_eq_value)
    finally show "(k \<notin> set (db_Query fs store)) = (\<not> list_all (\<lambda>f. matches f e) fs)"
      by simp
  qed
  then show ?thesis
    unfolding fold_db_Delete by (intro filter_cong) auto
qed

text \<open>Whatever the keys, no entity matching the query survives the deletion of its
  results, and deleting never makes a query match.\<close>

lemma query_after_delete_queried:
  "db_Query fs (fold db_Delete (db_Query fs store) store) = []"
  by (force simp: fold_db_Delete db_Query_def filter_empty_conv)

lemma query_empty_after_delete:
  "db_Query fs store = [] \<Longrightarrow> db_Query fs (fold db_Delete ks store) = []"
  by (auto simp: fold_db_Delete db_Query_def filter_empty_conv)

text \<open>The paths strictly between \<open>stem\<close> and \<open>stem + c\<close> are the proper extensions of
  \<open>stem\<close> whose first further code point is below \<open>c\<close>.\<close>

lemma between_stem:
  "(stem < p \<and> p < stem @ [c]) \<longleftrightarrow> (\<exists>d rest. p = stem @ d # rest \<and> d < c)"
  for stem p :: "nat list"
proof (induction stem arbitrary: p)
  case Nil
  show ?case by (cases p) auto
next
  case (Cons a stem)
  show ?case
  proof (cases p)
    case Nil
    then show ?thesis by simp
  next
    case (Cons b q)
    show ?thesis
      using Cons.IH [of q] by (auto simp: Cons)
  qed
qed

lemma rstrip_no_suffix: "\<not> endswith s [c] \<Longrightarrow> rstrip s [c] = s"
  by (cases s rule: rev_cases) (auto simp: endswith_def rstrip_def)

text \<open>
  C7. A prefix without a trailing \<open>*\<close> deletes exactly the entities whose path equals the
  prefix: over a store with distinct keys, what is left is the store without them, every
  other entity unchanged and in place.
\<close>

theorem flushCache_exact:
  assumes "\<not> endswith prefix (ustr ''*'')" and "distinct (map fst store)"
  shows "flushCache prefix store = filter (\<lambda>(k, e). e_path e \<noteq> prefix) store"
proof -
  have "rstrip prefix (ustr ''*'') = prefix"
    using assms(1) by (simp add: ustr_star rstrip_no_suffix)
  then show ?thesis
    using assms by (simp add: flushCache_def Let_def delete_queried_distinct)
qed

theorem flushCache_exact_witness:
  "\<not> endswith (ustr ''/page/view'') (ustr ''*'') \<and>
   distinct (map fst [(1::nat, entry_at ''/page/view''), (2, entry_at ''/page/view/sub''),
                      (3, entry_at ''/page'')]) \<and>
   flushCache (ustr ''/page/view'')
     [(1::nat, entry_at ''/page/view''), (2, entry_at ''/page/view/sub''),
      (3, entry_at ''/page'')] =
     [(2, entry_at ''/page/view/sub''), (3, entry_at ''/page'')]"
proof -
  have a: "\<not> endswith (ustr ''/page/view'') (ustr ''*'')"
    by (simp add: endswith_def ustr_def)
  have d: "distinct (map fst [(1::nat, entry_at ''/page/view''),
             (2, entry_at ''/page/view/sub''), (3, entry_at ''/page'')])"
    by simp
  show ?thesis
    using a d flushCache_exact [OF a d] by (simp add: entry_at_def ustr_def)
qed

text \<open>
  C8. Flushing twice with the same prefix leaves the store as flushing once did: the second
  run finds nothing to delete. This holds for every store and every prefix.
\<close>

theorem flushCache_idempotent:
  "flushCache prefix (flushCache prefix store) = flushCache prefix store"
proof -
  define stem where "stem = rstrip prefix (ustr ''*'')"
  define store1 where "store1 = fold db_Delete (db_Query [(PathEq, stem)] store) store"
  define store2 where "store2 =
    fold db_Delete (db_Query [(PathGt, stem), (PathLt, stem @ [0xFFFD])] store1) store1"
  have q1: "db_Query [(PathEq, stem)] store1 = []"
    unfolding store1_def by (rule query_after_delete_queried)
  have q12: "db_Query [(PathEq, stem)] store2 = []"
    unfolding store2_def using q1 by (rule query_empty_after_delete)
  have q2: "db_Query [(PathGt, stem), (PathLt, stem @ [0xFFFD])] store2 = []"
    unfolding store2_def by (rule query_after_delete_queried)
  show ?thesis
  proof (cases "endswith prefix (ustr ''*'')")
    case True
    then have f: "flushCache prefix store = store2"
      by (simp add: flushCache_def Let_def store2_def store1_def stem_def)
    have "flushCache prefix store2 = store2"
      using True q12 q2 by (simp add: flushCache_def Let_def stem_def [symmetric])
    with f show ?thesis by simp
  next
    case False
    then have f: "flushCache prefix store = store1"
      by (simp add: flushCache_def Let_def store1_def stem_def)
    have "flushCache prefix store1 = store1"
      using False q1 by (simp add: flushCache_def Let_def stem_def [symmetric])
    with f show ?thesis by simp
  qed
qed

text \<open>
  C1. A flush with a prefix ending in \<open>*\<close> is to delete the entries at the prefix stem
  and those below it. The stem the code compares with is \<open>prefix.rstrip("*")\<close>, which
  keeps the separator: for \<open>/page/*\<close> it is \<open>/page/\<close>, and an entry at \<open>/page\<close> is
  neither equal to it nor above it. So the entry at \<open>/page\<close> survives \<open>/page/*\<close>, and
  the entry that \<open>wrapF\<close> stores for \<open>/page/view\<close> survives \<open>/page/view/*\<close>. Only at
  the root do stem and path agree: \<open>/*\<close> deletes \<open>/\<close>.
\<close>

theorem flushCache_wildcard_keeps_stem:
  "flushCache (ustr ''/page/*'') [(1::nat, entry_at ''/page'')] = [(1, entry_at ''/page'')] \<and>
   flushCache (ustr ''/page/view/*'')
     [(1::nat, entry_at ''/page/view''), (2, entry_at ''/page/view/sub'')]
     = [(1, entry_at ''/page/view'')] \<and>
   flushCache (ustr ''/*'') [(1::nat, entry_at ''/''), (2, entry_at ''/page'')] = []"
  by (simp add: flushCache_def ustr_def rstrip_def endswith_def db_Query_def db_Delete_def
      entry_at_def)

text \<open>
  What the two queries of a wildcard flush select, over a store with distinct keys: the
  paths equal to \<open>prefix.rstrip("*")\<close> and its extensions whose first further code point
  is below U+FFFD.
\<close>

lemma flushCache_wildcard_range:
  assumes "endswith prefix (ustr ''*'')" and "distinct (map fst store)"
  shows "flushCache prefix store =
         filter (\<lambda>(k, e). \<not> (e_path e = rstrip prefix (ustr ''*'') \<or>
                   (\<exists>d rest. e_path e = rstrip prefix (ustr ''*'') @ d # rest \<and> d < 0xFFFD)))
           store"
proof -
  define stem where "stem = rstrip prefix (ustr ''*'')"
  define store1 where "store1 = filter (\<lambda>(k, e). e_path e \<noteq> stem) store"
  have d1: "distinct (map fst store1)"
    unfolding store1_def using assms(2) by (simp add: distinct_map_filter)
  have s1: "fold db_Delete (db_Query [(PathEq, stem)] store) store = store1"
    unfolding store1_def using assms(2) by (simp add: delete_queried_distinct)
  have "flushCache prefix store =
        fold db_Delete (db_Query [(PathGt, stem), (PathLt, stem @ [0xFFFD])] store1) store1"
    using assms(1) s1 by (simp add: flushCache_def Let_def stem_def [symmetric])
  also have "\<dots> = filter (\<lambda>(k, e). \<not> (stem < e_path e \<and> e_path e < stem @ [0xFFFD])) store1"
    using d1 by (simp add: delete_queried_distinct)
  also have "\<dots> = filter (\<lambda>(k, e). \<not> (e_path e = stem \<or>
                       (\<exists>d rest. e_path e = stem @ d # rest \<and> d < 0xFFFD))) store"
    unfolding store1_def between_stem by (auto intro: filter_cong)
  finally show ?thesis
    unfolding stem_def .
qed

section \<open>Properties of keyFromArgs\<close>

subsection \<open>The three loops\<close>

lemma mapArgs_upto:
  "n \<le> length args \<Longrightarrow> n \<le> length ao \<Longrightarrow>
   fold (\<lambda>idx (setArgs, res).
             if ao ! idx \<in> set ev
             then (setArgs @ [ao ! idx], AList.update (ao ! idx) (args ! idx) res)
             else (setArgs, res)) [0 ..< n] init =
   fold (\<lambda>(n, v) (setArgs, res). (setArgs @ [n], AList.update n v res))
     (filter (\<lambda>(n, v). n \<in> set ev) (take n (zip ao args))) init"
proof (induction n)
  case 0
  show ?case by simp
next
  case (Suc n)
  then have n: "n < length (zip ao args)" by simp
  show ?case
    using Suc by (simp add: take_Suc_conv_app_nth [OF n] split_def)
qed

lemma mapArgs_zip:
  "mapArgs ev ao args res =
   fold (\<lambda>(n, v) (setArgs, res). (setArgs @ [n], AList.update n v res))
     (evaluatedPositional ev ao args) ([], res)"
  unfolding mapArgs_def evaluatedPositional_def
  by (subst mapArgs_upto) (simp_all add: min.commute)

lemma fold_bind_fst:
  "fst (fold (\<lambda>(n, v) (setArgs, res). (setArgs @ [n], AList.update n v res)) ps (sa, r)) =
   sa @ map fst ps"
  by (induction ps arbitrary: sa r) (simp_all add: split_def)

lemma fold_bind_keys:
  "fst ` set (snd (fold (\<lambda>(n, v) (setArgs, res). (setArgs @ [n], AList.update n v res))
      ps (sa, r))) = fst ` set r \<union> fst ` set ps"
  by (induction ps arbitrary: sa r) (auto simp: split_def dom_update)

lemma fold_bind_distinct:
  "distinct (map fst r) \<Longrightarrow>
   distinct (map fst (snd (fold (\<lambda>(n, v) (setArgs, res). (setArgs @ [n], AList.update n v res))
      ps (sa, r))))"
  by (induction ps arbitrary: sa r) (simp_all add: split_def distinct_update)

lemma mapArgs_setArgs:
  "fst (mapArgs ev ao args res) = map fst (evaluatedPositional ev ao args)"
  by (simp add: mapArgs_zip fold_bind_fst)

lemma mapArgs_keys:
  "fst ` set (snd (mapArgs ev ao args res)) =
   fst ` set res \<union> fst ` set (evaluatedPositional ev ao args)"
  by (simp add: mapArgs_zip fold_bind_keys)

lemma mapArgs_distinct:
  "distinct (map fst res) \<Longrightarrow> distinct (map fst (snd (mapArgs ev ao args res)))"
  by (simp add: mapArgs_zip fold_bind_distinct)

lemma mapDefaults_ok:
  "length ds \<le> length ns \<Longrightarrow> \<exists>r. mapDefaults ds ns res = Inr r"
  by (induction ds ns res rule: mapDefaults.induct) simp_all

lemma mapDefaults_keys:
  "mapDefaults ds ns res = Inr r \<Longrightarrow> fst ` set r = fst ` set res \<union> set (take (length ds) ns)"
  by (induction ds ns res rule: mapDefaults.induct) (auto simp: dom_update)

lemma mapDefaults_distinct:
  "mapDefaults ds ns res = Inr r \<Longrightarrow> distinct (map fst res) \<Longrightarrow> distinct (map fst r)"
  by (induction ds ns res rule: mapDefaults.induct) (auto simp: distinct_update)

lemma mapKwargs_evaluated:
  "mapKwargs ev sa kwargs res = mapKwargs ev sa (evaluatedKeywords ev kwargs) res"
  by (induction ev sa kwargs res rule: mapKwargs.induct) (simp_all add: evaluatedKeywords_def)

lemma mapKwargs_keys:
  "mapKwargs ev sa kwargs res = Inr r \<Longrightarrow>
   fst ` set r = fst ` set res \<union> fst ` set (evaluatedKeywords ev kwargs)"
  by (induction ev sa kwargs res rule: mapKwargs.induct)
    (auto simp: evaluatedKeywords_def dom_update split: if_splits)

lemma mapKwargs_distinct:
  "mapKwargs ev sa kwargs res = Inr r \<Longrightarrow> distinct (map fst res) \<Longrightarrow> distinct (map fst r)"
  by (induction ev sa kwargs res rule: mapKwargs.induct)
    (auto simp: distinct_update split: if_splits)

lemma mapKwargs_duplicate:
  "k \<in> fst ` set kwargs \<Longrightarrow> k \<in> set ev \<Longrightarrow> k \<in> set sa \<Longrightarrow>
   \<exists>k'. mapKwargs ev sa kwargs res = Inl (AssertionError k')"
  by (induction ev sa kwargs res rule: mapKwargs.induct) auto

lemma mapKwargs_ok:
  "\<forall>k \<in> fst ` set kwargs. k \<in> set ev \<longrightarrow> k \<notin> set sa \<Longrightarrow>
   \<exists>r. mapKwargs ev sa kwargs res = Inr r"
  by (induction ev sa kwargs res rule: mapKwargs.induct) auto

lemma keys_filter_names:
  "fst ` set (filter (\<lambda>(n, v). n \<in> A) ps) = fst ` set ps \<inter> A"
  by (induction ps) auto

lemma evaluatedPositional_names:
  "fst ` set (evaluatedPositional ev ao args) = set (take (length args) ao) \<inter> set ev"
proof -
  have "map fst (zip ao args) = take (length args) ao"
    by (simp add: map_fst_zip_take min_def)
  moreover have "fst ` set (zip ao args) = set (map fst (zip ao args))"
    by simp
  ultimately have "fst ` set (zip ao args) = set (take (length args) ao)"
    by simp
  then show ?thesis
    unfolding evaluatedPositional_def keys_filter_names by simp
qed

lemma evaluatedKeywords_names:
  "fst ` set (evaluatedKeywords ev kwargs) = fst ` set kwargs \<inter> set ev"
  unfolding evaluatedKeywords_def keys_filter_names by simp

subsection \<open>resolveArgs\<close>

lemma wf_mapDefaults:
  assumes "wf_pyfunction f"
  obtains d res where "func_defaults f = Attribute d"
    and "mapDefaults (rev (case d of None \<Rightarrow> [] | Some ds \<Rightarrow> ds)) (rev (argsOrder_of f)) []
         = Inr res"
proof -
  obtain d where d: "func_defaults f = Attribute d"
    using assms by (cases "func_defaults f") (simp_all add: wf_pyfunction_def)
  have "length (rev (case d of None \<Rightarrow> [] | Some ds \<Rightarrow> ds)) \<le> length (rev (argsOrder_of f))"
    using assms d by (simp add: wf_pyfunction_def split: option.splits)
  then obtain res where
    "mapDefaults (rev (case d of None \<Rightarrow> [] | Some ds \<Rightarrow> ds)) (rev (argsOrder_of f)) [] = Inr res"
    using mapDefaults_ok by blast
  with d show ?thesis by (rule that)
qed

lemma defaulted_names:
  assumes "wf_pyfunction f" and "func_defaults f = Attribute d"
  shows "set (take (length (rev (case d of None \<Rightarrow> [] | Some ds \<Rightarrow> ds)))
          (rev (argsOrder_of f))) = set (defaultedParams f)"
  using assms by (simp add: wf_pyfunction_def defaultedParams_def take_rev split: option.splits)

lemma setArgs_names:
  assumes "mapArgs evaluatedArgs argsOrder args res = (setArgs, res1)"
  shows "set setArgs = set (take (length args) argsOrder) \<inter> set evaluatedArgs"
  using mapArgs_setArgs [of evaluatedArgs argsOrder args res] assms
    evaluatedPositional_names [of evaluatedArgs argsOrder args]
  by simp

lemma resolveArgs_duplicate:
  assumes "wf_pyfunction f" and "k \<in> set (take (length args) (argsOrder_of f))"
    and "k \<in> set evaluatedArgs" and "k \<in> fst ` set kwargs"
  shows "\<exists>k'. resolveArgs f evaluatedArgs args kwargs = Inl (AssertionError k')"
proof -
  obtain d res where a: "func_defaults f = Attribute d"
    and d: "mapDefaults (rev (case d of None \<Rightarrow> [] | Some ds \<Rightarrow> ds)) (rev (argsOrder_of f)) []
            = Inr res"
    using assms(1) by (rule wf_mapDefaults)
  obtain setArgs res1 where m: "mapArgs evaluatedArgs (argsOrder_of f) args res = (setArgs, res1)"
    by (cases "mapArgs evaluatedArgs (argsOrder_of f) args res")
  have "k \<in> set setArgs"
    using assms(2,3) by (simp add: setArgs_names [OF m])
  then obtain k' where "mapKwargs evaluatedArgs setArgs kwargs res1 = Inl (AssertionError k')"
    using mapKwargs_duplicate [OF assms(4) assms(3)] by blast
  then show ?thesis
    by (simp add: resolveArgs_def a d m)
qed

lemma resolveArgs_ok:
  assumes "wf_pyfunction f"
    and "\<forall>k \<in> fst ` set kwargs. k \<in> set evaluatedArgs \<longrightarrow>
           k \<notin> set (take (length args) (argsOrder_of f))"
  shows "\<exists>res. resolveArgs f evaluatedArgs args kwargs = Inr res"
proof -
  obtain d res where a: "func_defaults f = Attribute d"
    and d: "mapDefaults (rev (case d of None \<Rightarrow> [] | Some ds \<Rightarrow> ds)) (rev (argsOrder_of f)) []
            = Inr res"
    using assms(1) by (rule wf_mapDefaults)
  obtain setArgs res1 where m: "mapArgs evaluatedArgs (argsOrder_of f) args res = (setArgs, res1)"
    by (cases "mapArgs evaluatedArgs (argsOrder_of f) args res")
  have "\<forall>k \<in> fst ` set kwargs. k \<in> set evaluatedArgs \<longrightarrow> k \<notin> set setArgs"
    using assms(2) by (simp add: setArgs_names [OF m])
  then obtain r where "mapKwargs evaluatedArgs setArgs kwargs res1 = Inr r"
    using mapKwargs_ok by blast
  then show ?thesis
    by (simp add: resolveArgs_def a d m)
qed

lemma resolveArgs_keys:
  assumes "wf_pyfunction f" and "resolveArgs f evaluatedArgs args kwargs = Inr res"
  shows "fst ` set res = set (defaultedParams f)
           \<union> (set (take (length args) (argsOrder_of f)) \<inter> set evaluatedArgs)
           \<union> (fst ` set kwargs \<inter> set evaluatedArgs)"
proof -
  obtain d res0 where a: "func_defaults f = Attribute d"
    and d: "mapDefaults (rev (case d of None \<Rightarrow> [] | Some ds \<Rightarrow> ds)) (rev (argsOrder_of f)) []
            = Inr res0"
    using assms(1) by (rule wf_mapDefaults)
  obtain setArgs res1 where m: "mapArgs evaluatedArgs (argsOrder_of f) args res0 = (setArgs, res1)"
    by (cases "mapArgs evaluatedArgs (argsOrder_of f) args res0")
  have k: "mapKwargs evaluatedArgs setArgs kwargs res1 = Inr res"
    using assms(2) by (simp add: resolveArgs_def a d m)
  have k0: "fst ` set res0 = set (defaultedParams f)"
    using mapDefaults_keys [OF d] defaulted_names [OF assms(1) a] by simp
  have k1: "fst ` set res1 = fst ` set res0
              \<union> (set (take (length args) (argsOrder_of f)) \<inter> set evaluatedArgs)"
    using mapArgs_keys [of evaluatedArgs "argsOrder_of f" args res0] m
    by (simp add: evaluatedPositional_names)
  show ?thesis
    using mapKwargs_keys [OF k] k0 k1 by (simp add: evaluatedKeywords_names)
qed

lemma resolveArgs_distinct:
  assumes "resolveArgs f evaluatedArgs args kwargs = Inr res"
  shows "distinct (map fst res)"
proof -
  obtain d res0 where a: "func_defaults f = Attribute d"
    and d: "mapDefaults (rev (case d of None \<Rightarrow> [] | Some ds \<Rightarrow> ds)) (rev (argsOrder_of f)) []
            = Inr res0"
    using assms by (auto simp: resolveArgs_def Let_def split: attribute.splits sum.splits)
  obtain setArgs res1 where m: "mapArgs evaluatedArgs (argsOrder_of f) args res0 = (setArgs, res1)"
    by (cases "mapArgs evaluatedArgs (argsOrder_of f) args res0")
  have k: "mapKwargs evaluatedArgs setArgs kwargs res1 = Inr res"
    using assms by (simp add: resolveArgs_def a d m)
  have "distinct (map fst res0)"
    using mapDefaults_distinct [OF d] by simp
  then have "distinct (map fst res1)"
    using mapArgs_distinct [of res0 evaluatedArgs "argsOrder_of f" args] m by simp
  then show ?thesis
    using mapKwargs_distinct [OF k] by simp
qed

lemma resolveArgs_evaluated:
  assumes "evaluatedPositional evaluatedArgs (argsOrder_of f) args =
           evaluatedPositional evaluatedArgs (argsOrder_of f) args'"
    and "evaluatedKeywords evaluatedArgs kwargs = evaluatedKeywords evaluatedArgs kwargs'"
  shows "resolveArgs f evaluatedArgs args kwargs = resolveArgs f evaluatedArgs args' kwargs'"
proof -
  have a: "\<And>res. mapArgs evaluatedArgs (argsOrder_of f) args res =
                 mapArgs evaluatedArgs (argsOrder_of f) args' res"
    by (simp add: mapArgs_zip assms(1))
  have k: "\<And>sa res. mapKwargs evaluatedArgs sa kwargs res = mapKwargs evaluatedArgs sa kwargs' res"
    using mapKwargs_evaluated [of evaluatedArgs _ kwargs] mapKwargs_evaluated [of evaluatedArgs _ kwargs']
    by (simp add: assms(2))
  show ?thesis
    by (simp only: resolveArgs_def Let_def a k)
qed

subsection \<open>Which keys the dictionary holds\<close>

lemma filter_zip_none:
  "\<forall>i < length ao. i < length ys \<longrightarrow> ao ! i \<notin> A \<Longrightarrow>
   filter (\<lambda>(n, v). n \<in> A) (zip ao ys) = []"
  by (auto simp: filter_empty_conv in_set_zip)

lemma filter_zip_agree:
  "\<forall>i < length ao. ao ! i \<in> A \<longrightarrow>
      (i < length xs \<longleftrightarrow> i < length ys) \<and> (i < length xs \<longrightarrow> xs ! i = ys ! i) \<Longrightarrow>
   filter (\<lambda>(n, v). n \<in> A) (zip ao xs) = filter (\<lambda>(n, v). n \<in> A) (zip ao ys)"
proof (induction ao arbitrary: xs ys)
  case Nil
  show ?case by simp
next
  case (Cons a ao)
  show ?case
  proof (cases xs)
    case Nil
    have "filter (\<lambda>(n, v). n \<in> A) (zip (a # ao) ys) = []"
      using Cons.prems Nil by (intro filter_zip_none) auto
    then show ?thesis using Nil by simp
  next
    case xs: (Cons x xs')
    show ?thesis
    proof (cases ys)
      case Nil
      have "filter (\<lambda>(n, v). n \<in> A) (zip (a # ao) xs) = []"
        using Cons.prems Nil by (intro filter_zip_none) auto
      then show ?thesis using Nil by simp
    next
      case ys: (Cons y ys')
      have hd: "a \<in> A \<Longrightarrow> x = y"
        using Cons.prems xs ys by auto
      have "\<forall>i < length ao. ao ! i \<in> A \<longrightarrow>
              (i < length xs' \<longleftrightarrow> i < length ys') \<and> (i < length xs' \<longrightarrow> xs' ! i = ys' ! i)"
      proof (intro allI impI)
        fix i assume "i < length ao" "ao ! i \<in> A"
        then show "(i < length xs' \<longleftrightarrow> i < length ys') \<and> (i < length xs' \<longrightarrow> xs' ! i = ys' ! i)"
          using Cons.prems [rule_format, of "Suc i"] xs ys by simp
      qed
      then have "filter (\<lambda>(n, v). n \<in> A) (zip ao xs') = filter (\<lambda>(n, v). n \<in> A) (zip ao ys')"
        by (rule Cons.IH)
      then show ?thesis
        using hd xs ys by simp
    qed
  qed
qed

lemma reserved_not_evaluated:
  assumes "enableCache_assertion evaluatedArgs" and "p \<in> set evaluatedArgs"
  shows "p \<noteq> ustr ''__user''" "p \<noteq> ustr ''__lang''" "p \<noteq> ustr ''_cacheEnvironment''"
    "p \<noteq> ustr ''__path''" "p \<noteq> ustr ''__appVersion''"
  using assms by (auto simp: enableCache_assertion_def list_ex_iff ustr_def)

lemma key_update_iff:
  "k \<in> fst ` set (AList.update k' v al) \<longleftrightarrow> k = k' \<or> k \<in> fst ` set al"
  by (simp add: dom_update)

lemma userItems_keys:
  assumes "userItems u m res = Some r" and "k \<in> fst ` set r"
  shows "k = ustr ''__user'' \<or> k \<in> fst ` set res"
proof -
  have "case userItems u m res of None \<Rightarrow> True
        | Some r \<Rightarrow> \<forall>k. k \<in> fst ` set r \<longrightarrow> k = ustr ''__user'' \<or> k \<in> fst ` set res"
    by (simp add: userItems_def key_update_iff split: option.split)
  then show ?thesis
    using assms by simp
qed

lemma requestItems_keys:
  assumes "requestItems c rq l pth res = Some r" and "k \<in> fst ` set r"
  shows "k \<in> {ustr ''__lang'', ustr ''_cacheEnvironment'', ustr ''__path'',
               ustr ''__appVersion''} \<or> k \<in> fst ` set res"
proof -
  have "case requestItems c rq l pth res of None \<Rightarrow> True
        | Some r \<Rightarrow> \<forall>k. k \<in> fst ` set r \<longrightarrow>
            k \<in> {ustr ''__lang'', ustr ''_cacheEnvironment'', ustr ''__path'',
                  ustr ''__appVersion''} \<or> k \<in> fst ` set res"
    by (simp add: requestItems_def Let_def key_update_iff
        split: option.split environmentKey.split)
  then show ?thesis
    using assms by simp
qed

lemma reserved_distinct:
  "ustr ''__user'' \<noteq> ustr ''__lang''" "ustr ''__user'' \<noteq> ustr ''_cacheEnvironment''"
  "ustr ''__user'' \<noteq> ustr ''__path''" "ustr ''__user'' \<noteq> ustr ''__appVersion''"
  by (simp_all add: ustr_def)

lemma requestItems_Some_iff:
  "(\<exists>r. requestItems c rq l pth res = Some r) \<longleftrightarrow> viur_cacheEnvironmentKey c \<noteq> Some RuntimeError"
  by (simp add: requestItems_def Let_def split: option.split environmentKey.split)

lemma requestItems_user:
  assumes "requestItems c rq l pth res = Some r"
  shows "map_of r (ustr ''__user'') = map_of res (ustr ''__user'')"
proof -
  have "case requestItems c rq l pth res of None \<Rightarrow> True
        | Some r \<Rightarrow> map_of r (ustr ''__user'') = map_of res (ustr ''__user'')"
    by (simp add: requestItems_def Let_def update_conv' reserved_distinct
        split: option.split environmentKey.split)
  then show ?thesis using assms by simp
qed

lemma requestItems_distinct:
  assumes "requestItems c rq l pth res = Some r" and "distinct (map fst res)"
  shows "distinct (map fst r)"
proof -
  have "case requestItems c rq l pth res of None \<Rightarrow> True
        | Some r \<Rightarrow> distinct (map fst res) \<longrightarrow> distinct (map fst r)"
    by (simp add: requestItems_def Let_def distinct_update
        split: option.split environmentKey.split)
  then show ?thesis using assms by simp
qed

lemma requestItems_mono:
  assumes "requestItems c rq l pth res = Some r" and "requestItems c rq l pth res' = Some r'"
    and "fst ` set res \<subseteq> fst ` set res'"
  shows "fst ` set r \<subseteq> fst ` set r'"
proof -
  have "case requestItems c rq l pth res of None \<Rightarrow> True
        | Some r \<Rightarrow> (case requestItems c rq l pth res' of None \<Rightarrow> True
            | Some r' \<Rightarrow> fst ` set res \<subseteq> fst ` set res' \<longrightarrow> fst ` set r \<subseteq> fst ` set r')"
    by (auto simp add: requestItems_def Let_def dom_update
        split: option.split environmentKey.split)
  then show ?thesis using assms by simp
qed

lemma sorted_items_differ:
  assumes "distinct (map fst xs)" and "distinct (map fst ys)"
    and "map_of xs k \<noteq> map_of ys k"
  shows "sort_key fst xs \<noteq> sort_key fst ys"
proof
  assume "sort_key fst xs = sort_key fst ys"
  then have "set (sort_key fst xs) = set (sort_key fst ys)" by simp
  then have "set xs = set ys" by simp
  then have "map_of xs = map_of ys"
    using assms(1,2) by (simp add: map_of_inject_set)
  with assms(3) show False by simp
qed

lemma key_for_bucket:
  assumes H: "keyFromArgs sha512 ctx f 0 ls ev pth args kwargs = Inr (Some k0)"
    and U: "\<And>res. userItems u m res = Some (AList.update (ustr ''__user'') v res)"
  shows "\<exists>r. keyFromArgs sha512 (ctx\<lparr>ctx_user := u\<rparr>) f m ls ev pth args kwargs
               = Inr (Some (sha512 (sort_key fst r)))
             \<and> distinct (map fst r) \<and> map_of r (ustr ''__user'') = Some v"
proof -
  from H obtain res where r: "resolveArgs f ev args kwargs = Inr res"
    by (auto simp: keyFromArgs_def split: sum.splits)
  have u0: "userItems (ctx_user ctx) 0 res = Some res"
    by (simp add: userItems_def)
  from H obtain r0 where q0: "requestItems (ctx_conf ctx) (ctx_request ctx) ls pth res = Some r0"
    and all0: "list_all (\<lambda>x. x \<in> set (map fst r0)) (argsOrder_of f)"
    by (auto simp: keyFromArgs_def r u0 split: option.splits if_splits)
  have "viur_cacheEnvironmentKey (ctx_conf ctx) \<noteq> Some RuntimeError"
    using q0 requestItems_Some_iff by blast
  then obtain r3 where q3: "requestItems (ctx_conf ctx) (ctx_request ctx) ls pth
      (AList.update (ustr ''__user'') v res) = Some r3"
    using requestItems_Some_iff by blast
  have "fst ` set r0 \<subseteq> fst ` set r3"
    by (rule requestItems_mono [OF q0 q3]) (auto simp: dom_update)
  then have all3: "list_all (\<lambda>x. x \<in> set (map fst r3)) (argsOrder_of f)"
    using all0 by (auto simp: list_all_iff)
  have d3: "distinct (map fst r3)"
    using requestItems_distinct [OF q3] resolveArgs_distinct [OF r] by (simp add: distinct_update)
  have m3: "map_of r3 (ustr ''__user'') = Some v"
    using requestItems_user [OF q3] by (simp add: update_conv')
  have "keyFromArgs sha512 (ctx\<lparr>ctx_user := u\<rparr>) f m ls ev pth args kwargs
        = Inr (Some (sha512 (sort_key fst r3)))"
    using all3 by (simp add: keyFromArgs_def r U q3)
  with d3 m3 show ?thesis by blast
qed

lemma keyFromArgs_digest:
  "keyFromArgs digest ctx f m ls ev pth args kwargs =
   (case keyFromArgs (\<lambda>items. items) ctx f m ls ev pth args kwargs of
      Inl e \<Rightarrow> Inl e
    | Inr None \<Rightarrow> Inr None
    | Inr (Some r) \<Rightarrow> Inr (Some (digest r)))"
  by (simp add: keyFromArgs_def split: sum.splits option.splits)

lemma keyFromArgs_digest_Some:
  assumes "\<exists>k0. keyFromArgs digest ctx f m ls ev pth args kwargs = Inr (Some k0)"
  obtains r where "keyFromArgs (\<lambda>items. items) ctx f m ls ev pth args kwargs = Inr (Some r)"
  using assms keyFromArgs_digest [of digest ctx f m ls ev pth args kwargs]
  by (auto split: sum.splits option.splits)

lemma item_lists_differ:
  assumes H: "keyFromArgs (\<lambda>items. items) ctx f 0 ls ev pth args kwargs = Inr (Some r0)"
    and U: "\<And>res. userItems u m res = Some (AList.update (ustr ''__user'') v res)"
    and U': "\<And>res. userItems u' m res = Some (AList.update (ustr ''__user'') v' res)"
    and ne: "v \<noteq> v'"
  shows "\<exists>ra rb.
           keyFromArgs (\<lambda>items. items) (ctx\<lparr>ctx_user := u\<rparr>) f m ls ev pth args kwargs
             = Inr (Some ra) \<and>
           keyFromArgs (\<lambda>items. items) (ctx\<lparr>ctx_user := u'\<rparr>) f m ls ev pth args kwargs
             = Inr (Some rb) \<and> ra \<noteq> rb"
proof -
  obtain ra where ra:
    "keyFromArgs (\<lambda>items. items) (ctx\<lparr>ctx_user := u\<rparr>) f m ls ev pth args kwargs
       = Inr (Some (sort_key fst ra))"
    "distinct (map fst ra)" "map_of ra (ustr ''__user'') = Some v"
    using key_for_bucket [OF H U] by blast
  obtain rb where rb:
    "keyFromArgs (\<lambda>items. items) (ctx\<lparr>ctx_user := u'\<rparr>) f m ls ev pth args kwargs
       = Inr (Some (sort_key fst rb))"
    "distinct (map fst rb)" "map_of rb (ustr ''__user'') = Some v'"
    using key_for_bucket [OF H U'] by blast
  have "map_of ra (ustr ''__user'') \<noteq> map_of rb (ustr ''__user'')"
    using ra(3) rb(3) ne by simp
  then have "sort_key fst ra \<noteq> sort_key fst rb"
    using ra(2) rb(2) by (intro sorted_items_differ)
  with ra(1) rb(1) show ?thesis by blast
qed

lemmas concrete_defs = render_def view_def listing_def guest_ctx_def alice_def bob_def
  render_py3_def self_default_def path_param_def
  keyFromArgs_def resolveArgs_def userItems_def requestItems_def argsOrder_of_def mapArgs_def
  ustr_def split_dot_first_def

subsection \<open>Ignored arguments, duplicates, completeness and the caller\<close>

text \<open>
  C2. Parameters outside \<open>evaluatedArgs\<close> are ignored. Two invocations that bind every
  evaluated parameter alike (at each evaluated position both supply an argument or neither
  does, and the same one; the keyword arguments with evaluated names are the same) get the
  same result from \<open>keyFromArgs\<close>: the same key, or both \<open>None\<close>, or the same error.
  So supplying, omitting or changing an argument that is not evaluated changes nothing.
\<close>

theorem keyFromArgs_ignores_unevaluated:
  assumes "\<forall>i < length (argsOrder_of f). argsOrder_of f ! i \<in> set evaluatedArgs \<longrightarrow>
             (i < length args \<longleftrightarrow> i < length args') \<and> (i < length args \<longrightarrow> args ! i = args' ! i)"
    and "evaluatedKeywords evaluatedArgs kwargs = evaluatedKeywords evaluatedArgs kwargs'"
  shows "keyFromArgs sha512 ctx f userSensitive languageSensitive evaluatedArgs pth args kwargs =
         keyFromArgs sha512 ctx f userSensitive languageSensitive evaluatedArgs pth args' kwargs'"
proof -
  have "evaluatedPositional evaluatedArgs (argsOrder_of f) args =
        evaluatedPositional evaluatedArgs (argsOrder_of f) args'"
    unfolding evaluatedPositional_def using assms(1) by (rule filter_zip_agree)
  then have "resolveArgs f evaluatedArgs args kwargs = resolveArgs f evaluatedArgs args' kwargs'"
    using assms(2) by (rule resolveArgs_evaluated)
  then show ?thesis
    by (simp add: keyFromArgs_def)
qed

theorem keyFromArgs_ignores_unevaluated_witness:
  "evaluatedKeywords [ustr ''id''] [] =
     evaluatedKeywords [ustr ''id''] [(ustr ''style'', PyStr (ustr ''wide''))] \<and>
   keyFromArgs (\<lambda>items. items) guest_ctx view 0 False [ustr ''id''] (ustr ''/page/view'')
     [PyInt 5, PyStr (ustr ''fancy'')] [(ustr ''style'', PyStr (ustr ''wide''))] =
   Inr (Some [(ustr ''__appVersion'', PyStr (ustr ''v1'')),
              (ustr ''__path'', PyStr (ustr ''/page/view'')),
              (ustr ''id'', PyInt 5), (ustr ''style'', PyStr (ustr ''plain''))])"
proof -
  have ao: "argsOrder_of view = [ustr ''id'', ustr ''style'']"
    by (simp add: argsOrder_of_def view_def)
  have h1: "\<forall>i < length (argsOrder_of view). argsOrder_of view ! i \<in> set [ustr ''id''] \<longrightarrow>
      (i < length [PyInt 5] \<longleftrightarrow> i < length [PyInt 5, PyStr (ustr ''fancy'')]) \<and>
      (i < length [PyInt 5] \<longrightarrow> [PyInt 5] ! i = [PyInt 5, PyStr (ustr ''fancy'')] ! i)"
    unfolding ao by (simp add: ustr_def less_Suc_eq nth_Cons')
  have h2: "evaluatedKeywords [ustr ''id''] [] =
     evaluatedKeywords [ustr ''id''] [(ustr ''style'', PyStr (ustr ''wide''))]"
    by (simp add: evaluatedKeywords_def ustr_def)
  have k: "keyFromArgs (\<lambda>items. items) guest_ctx view 0 False [ustr ''id''] (ustr ''/page/view'')
     [PyInt 5] [] =
   Inr (Some [(ustr ''__appVersion'', PyStr (ustr ''v1'')),
              (ustr ''__path'', PyStr (ustr ''/page/view'')),
              (ustr ''id'', PyInt 5), (ustr ''style'', PyStr (ustr ''plain''))])"
    by (simp add: concrete_defs)
  have k': "keyFromArgs (\<lambda>items. items) guest_ctx view 0 False [ustr ''id''] (ustr ''/page/view'')
     [PyInt 5, PyStr (ustr ''fancy'')] [(ustr ''style'', PyStr (ustr ''wide''))] =
   Inr (Some [(ustr ''__appVersion'', PyStr (ustr ''v1'')),
              (ustr ''__path'', PyStr (ustr ''/page/view'')),
              (ustr ''id'', PyInt 5), (ustr ''style'', PyStr (ustr ''plain''))])"
    using keyFromArgs_ignores_unevaluated [OF h1 h2, of "\<lambda>items. items" guest_ctx 0 False
        "ustr ''/page/view''"] k
    by simp
  show ?thesis
    by (rule conjI [OF h2 k'])
qed

text \<open>
  C5. An evaluated parameter supplied positionally and again by keyword is to raise the
  duplicate-argument \<open>AssertionError\<close>. The loop that raises it is reached only when the
  loop over the defaults runs through. On a Python 3 function, which has no
  \<open>func_defaults\<close>, the read of the attribute raises \<open>AttributeError\<close> first; on a
  function whose first parameter has a default, \<open>reversedArgsOrder.pop(0)\<close> raises
  \<open>IndexError\<close> first. In both calls below \<open>id\<close>, or \<open>a\<close>, is evaluated and supplied
  twice.
\<close>

theorem keyFromArgs_duplicate_other_error:
  "keyFromArgs (\<lambda>items. items) guest_ctx render_py3 0 False [ustr ''id'', ustr ''order'']
     (ustr ''/page/view'') [PyInt 5] [(ustr ''id'', PyInt 7)] = Inl AttributeError \<and>
   keyFromArgs (\<lambda>items. items) guest_ctx self_default 0 False [ustr ''a'']
     (ustr ''/page/view'') [PyInt 1] [(ustr ''a'', PyInt 2)] = Inl IndexError"
  by (simp add: concrete_defs)

text \<open>
  Where \<open>func_defaults\<close> can be read and the first parameter has no default, the
  duplicate is found and raised, whatever the mode and the context.
\<close>

lemma keyFromArgs_duplicate_wf:
  assumes "wf_pyfunction f" and "idx < length args" and "idx < length (argsOrder_of f)"
    and "argsOrder_of f ! idx \<in> set evaluatedArgs"
    and "argsOrder_of f ! idx \<in> fst ` set kwargs"
  shows "\<exists>k. keyFromArgs sha512 ctx f userSensitive languageSensitive evaluatedArgs pth args kwargs
              = Inl (AssertionError k)"
proof -
  have "argsOrder_of f ! idx \<in> set (take (length args) (argsOrder_of f))"
    using assms(2,3) by (auto simp: in_set_conv_nth intro!: exI [of _ idx])
  then obtain k where "resolveArgs f evaluatedArgs args kwargs = Inl (AssertionError k)"
    using resolveArgs_duplicate [OF assms(1) _ assms(4) assms(5)] by blast
  then show ?thesis
    by (simp add: keyFromArgs_def)
qed

text \<open>
  C6, as stated: an allowlisted parameter covered by no default, no positional argument
  and no keyword always gives \<open>None\<close>, never a key or an error. Four calls where it
  does not. In the first \<open>page\<close> is not covered and \<open>id\<close> is supplied twice: the loop
  over \<open>kwargs\<close> raises before the completeness check is reached. In the second the
  allowlist names \<open>foo\<close>, which the handler does not declare: the check ranges over the
  declared parameters, and a key is returned. In the third the parameter is called
  \<open>__path\<close>, the name of an item \<open>keyFromArgs\<close> adds itself: a key is returned. In the
  fourth the function has no \<open>func_defaults\<close>: \<open>AttributeError\<close> is raised.
\<close>

theorem keyFromArgs_incomplete_counterexample:
  "ustr ''page'' \<in> set [ustr ''id'', ustr ''page''] \<and>
   ustr ''page'' \<notin> set (defaultedParams listing) \<and>
   ustr ''page'' \<notin> set (take (length [PyInt 5]) (argsOrder_of listing)) \<and>
   ustr ''page'' \<notin> fst ` set [(ustr ''id'', PyInt 7)] \<and>
   keyFromArgs (\<lambda>items. items) guest_ctx listing 0 False [ustr ''id'', ustr ''page'']
     (ustr ''/page/view'') [PyInt 5] [(ustr ''id'', PyInt 7)] = Inl (AssertionError (ustr ''id'')) \<and>
   ustr ''foo'' \<in> set [ustr ''id'', ustr ''order'', ustr ''foo''] \<and>
   ustr ''foo'' \<notin> set (defaultedParams render) \<and>
   ustr ''foo'' \<notin> set (take (length [PyInt 5]) (argsOrder_of render)) \<and>
   keyFromArgs (\<lambda>items. items) guest_ctx render 0 False
     [ustr ''id'', ustr ''order'', ustr ''foo''] (ustr ''/page/view'') [PyInt 5] []
     = Inr (Some [(ustr ''__appVersion'', PyStr (ustr ''v1'')),
                  (ustr ''__path'', PyStr (ustr ''/page/view'')),
                  (ustr ''id'', PyInt 5), (ustr ''order'', PyStr (ustr ''asc''))]) \<and>
   ustr ''__path'' \<in> set (argsOrder_of path_param) \<and>
   ustr ''__path'' \<notin> set (defaultedParams path_param) \<and>
   keyFromArgs (\<lambda>items. items) guest_ctx path_param 0 False [ustr ''__path'']
     (ustr ''/page/view'') [] []
     = Inr (Some [(ustr ''__appVersion'', PyStr (ustr ''v1'')),
                  (ustr ''__path'', PyStr (ustr ''/page/view''))]) \<and>
   keyFromArgs (\<lambda>items. items) guest_ctx render_py3 0 False [ustr ''id'', ustr ''order'']
     (ustr ''/page/view'') [] [] = Inl AttributeError"
  by (simp add: concrete_defs defaultedParams_def)

text \<open>
  C6, amended. The handler's \<open>func_defaults\<close> can be read and no name of the allowlist
  starts with an underscore (the decorator's assertion). If a parameter that the handler
  declares after its first one and that the allowlist names is covered by no default, no
  positional argument at its position and no keyword argument, and no allowlisted
  parameter is supplied both positionally and by keyword, then \<open>keyFromArgs\<close> returns
  \<open>None\<close>.
\<close>

theorem keyFromArgs_incomplete:
  assumes "func_defaults f \<noteq> NoSuchAttribute" and "enableCache_assertion evaluatedArgs"
    and "p \<in> set (argsOrder_of f)" and "p \<in> set evaluatedArgs"
    and "p \<notin> set (defaultedParams f)"
    and "p \<notin> set (take (length args) (argsOrder_of f))"
    and "p \<notin> fst ` set kwargs"
    and "\<forall>k \<in> fst ` set kwargs. k \<in> set evaluatedArgs \<longrightarrow>
           k \<notin> set (take (length args) (argsOrder_of f))"
  shows "keyFromArgs sha512 ctx f userSensitive languageSensitive evaluatedArgs pth args kwargs
         = Inr None"
proof -
  have wf: "wf_pyfunction f"
  proof (cases "func_defaults f")
    case NoSuchAttribute
    with assms(1) show ?thesis by simp
  next
    case (Attribute d)
    show ?thesis
    proof (cases d)
      case None
      with Attribute show ?thesis by (simp add: wf_pyfunction_def)
    next
      case (Some ds)
      have "length ds \<le> length (argsOrder_of f)"
      proof (rule ccontr)
        assume "\<not> length ds \<le> length (argsOrder_of f)"
        then have "defaultedParams f = argsOrder_of f"
          using Attribute Some by (simp add: defaultedParams_def)
        with assms(3,5) show False by simp
      qed
      with Attribute Some show ?thesis by (simp add: wf_pyfunction_def)
    qed
  qed
  obtain res where r: "resolveArgs f evaluatedArgs args kwargs = Inr res"
    using resolveArgs_ok [OF wf assms(8)] by blast
  have p0: "p \<notin> fst ` set res"
    unfolding resolveArgs_keys [OF wf r] using assms(5,6,7) by simp
  note np = reserved_not_evaluated [OF assms(2) assms(4)]
  show ?thesis
  proof (cases "userItems (ctx_user ctx) userSensitive res")
    case None
    then show ?thesis by (simp add: keyFromArgs_def r)
  next
    case (Some res3)
    have p3: "p \<notin> fst ` set res3"
      using userItems_keys [OF Some, of p] p0 np by blast
    show ?thesis
    proof (cases "requestItems (ctx_conf ctx) (ctx_request ctx) languageSensitive pth res3")
      case None
      then show ?thesis by (simp add: keyFromArgs_def r Some)
    next
      case req: (Some res7)
      have "p \<notin> fst ` set res7"
        using requestItems_keys [OF req, of p] p3 np by blast
      then have "\<not> list_all (\<lambda>x. x \<in> set (map fst res7)) (argsOrder_of f)"
        using assms(3) by (auto simp: list_all_iff)
      then show ?thesis
        by (simp add: keyFromArgs_def r Some req)
    qed
  qed
qed

theorem keyFromArgs_incomplete_witness:
  "func_defaults listing \<noteq> NoSuchAttribute \<and>
   enableCache_assertion [ustr ''id'', ustr ''page''] \<and>
   ustr ''page'' \<in> set (argsOrder_of listing) \<and>
   ustr ''page'' \<in> set [ustr ''id'', ustr ''page''] \<and>
   ustr ''page'' \<notin> set (defaultedParams listing) \<and>
   ustr ''page'' \<notin> set (take (length [PyInt 5]) (argsOrder_of listing)) \<and>
   ustr ''page'' \<notin> fst ` set ([] :: pydict) \<and>
   keyFromArgs (\<lambda>items. items) guest_ctx listing 0 False [ustr ''id'', ustr ''page'']
     (ustr ''/page/view'') [PyInt 5] [] = Inr None"
proof -
  have ao: "argsOrder_of listing = [ustr ''id'', ustr ''page'']"
    by (simp add: argsOrder_of_def listing_def)
  have h1: "func_defaults listing \<noteq> NoSuchAttribute"
    by (simp add: listing_def)
  have h2: "enableCache_assertion [ustr ''id'', ustr ''page'']"
    by (simp add: enableCache_assertion_def ustr_def)
  have h3: "ustr ''page'' \<in> set (argsOrder_of listing)" by (simp add: ao)
  have h4: "ustr ''page'' \<in> set [ustr ''id'', ustr ''page'']" by simp
  have h5: "ustr ''page'' \<notin> set (defaultedParams listing)"
    by (simp add: defaultedParams_def listing_def)
  have h6: "ustr ''page'' \<notin> set (take (length [PyInt 5]) (argsOrder_of listing))"
    by (simp add: ao ustr_def)
  have h7: "ustr ''page'' \<notin> fst ` set ([] :: pydict)" by simp
  have h8: "\<forall>k \<in> fst ` set ([] :: pydict). k \<in> set [ustr ''id'', ustr ''page''] \<longrightarrow>
           k \<notin> set (take (length [PyInt 5]) (argsOrder_of listing))" by simp
  have c: "keyFromArgs (\<lambda>items. items) guest_ctx listing 0 False [ustr ''id'', ustr ''page'']
     (ustr ''/page/view'') [PyInt 5] [] = Inr None"
    by (rule keyFromArgs_incomplete [OF h1 h2 h3 h4 h5 h6 h7 h8])
  show ?thesis
    by (intro conjI h1 h2 h3 h4 h5 h6 h7 c)
qed

text \<open>
  C3, as stated: for every two invocations that differ only in the caller, mode 1 with an
  authenticated caller gives \<open>None\<close>, and modes 2 and 3 give distinct keys. Five calls
  where they do not. In the first \<open>page\<close> is not supplied, so under mode 3 both callers
  get \<open>None\<close> and no key. In the second \<open>id\<close> is supplied twice, so mode 1 raises
  instead of returning \<open>None\<close>; in the third and fourth the loop over the defaults
  raises, on a function without \<open>func_defaults\<close> and on one whose first parameter has a
  default. In the fifth the digest maps every item list to the same string, and two
  callers share a key under mode 3: distinct item lists give distinct keys only as far
  as the digest separates them.
\<close>

theorem keyFromArgs_userSensitive_counterexample:
  "user_key alice \<noteq> user_key bob \<and>
   keyFromArgs (\<lambda>items. items) (guest_ctx\<lparr>ctx_user := Some alice\<rparr>) listing 3 False
     [ustr ''id'', ustr ''page''] (ustr ''/page/view'') [PyInt 5] [] = Inr None \<and>
   keyFromArgs (\<lambda>items. items) (guest_ctx\<lparr>ctx_user := Some bob\<rparr>) listing 3 False
     [ustr ''id'', ustr ''page''] (ustr ''/page/view'') [PyInt 5] [] = Inr None \<and>
   keyFromArgs (\<lambda>items. items) (guest_ctx\<lparr>ctx_user := Some alice\<rparr>) render 1 False
     [ustr ''id'', ustr ''order''] (ustr ''/page/view'') [PyInt 5] [(ustr ''id'', PyInt 7)]
     = Inl (AssertionError (ustr ''id'')) \<and>
   keyFromArgs (\<lambda>items. items) (guest_ctx\<lparr>ctx_user := Some alice\<rparr>) render_py3 1 False
     [ustr ''id'', ustr ''order''] (ustr ''/page/view'') [PyInt 5] [] = Inl AttributeError \<and>
   keyFromArgs (\<lambda>items. items) (guest_ctx\<lparr>ctx_user := Some alice\<rparr>) self_default 1 False
     [ustr ''a''] (ustr ''/page/view'') [PyInt 1] [] = Inl IndexError \<and>
   keyFromArgs (\<lambda>items. ustr ''0'') (guest_ctx\<lparr>ctx_user := Some alice\<rparr>) render 3 False
     [ustr ''id'', ustr ''order''] (ustr ''/page/view'') [PyInt 5] [] = Inr (Some (ustr ''0'')) \<and>
   keyFromArgs (\<lambda>items. ustr ''0'') (guest_ctx\<lparr>ctx_user := Some bob\<rparr>) render 3 False
     [ustr ''id'', ustr ''order''] (ustr ''/page/view'') [PyInt 5] [] = Inr (Some (ustr ''0''))"
  by (simp add: concrete_defs)

text \<open>
  C3, amended. Two invocations of \<open>keyFromArgs\<close> differ only in the current caller.
  Under mode 0 the results are identical. Under mode 1 an authenticated caller gets
  \<open>None\<close>, when \<open>func_defaults\<close> can be read, the first parameter has no default and
  no allowlisted parameter is supplied both positionally and by keyword. Under mode 2 any
  two authenticated callers get the same result. A key is the digest of the sorted item
  list. When the call returns a key under mode 0, mode 2 returns keys for an
  authenticated caller and for no caller that are digests of two different item lists,
  and mode 3 returns, for two callers with distinct identifiers, keys that are digests of
  two different item lists.
\<close>

theorem keyFromArgs_userSensitive:
  fixes digest :: "pydict \<Rightarrow> 'k" and ctx f languageSensitive evaluatedArgs pth args kwargs
  defines "K \<equiv> \<lambda>u m. keyFromArgs digest (ctx\<lparr>ctx_user := u\<rparr>) f m languageSensitive
                          evaluatedArgs pth args kwargs"
    and "L \<equiv> \<lambda>u m. keyFromArgs (\<lambda>items. items) (ctx\<lparr>ctx_user := u\<rparr>) f m languageSensitive
                          evaluatedArgs pth args kwargs"
  shows "K u 0 = K u' 0 \<and>
         (wf_pyfunction f \<and>
          (\<forall>k \<in> fst ` set kwargs. k \<in> set evaluatedArgs \<longrightarrow>
             k \<notin> set (take (length args) (argsOrder_of f))) \<longrightarrow>
            K (Some a) 1 = Inr None) \<and>
         K (Some a) 2 = K (Some b) 2 \<and>
         K u m = (case L u m of Inl e \<Rightarrow> Inl e | Inr None \<Rightarrow> Inr None
                  | Inr (Some r) \<Rightarrow> Inr (Some (digest r))) \<and>
         ((\<exists>k0. K None 0 = Inr (Some k0)) \<longrightarrow>
            (\<exists>ra rn. L (Some a) 2 = Inr (Some ra) \<and> L None 2 = Inr (Some rn) \<and> ra \<noteq> rn)) \<and>
         ((\<exists>k0. K None 0 = Inr (Some k0)) \<and> user_key a \<noteq> user_key b \<longrightarrow>
            (\<exists>ra rb. L (Some a) 3 = Inr (Some ra) \<and> L (Some b) 3 = Inr (Some rb) \<and> ra \<noteq> rb))"
proof (intro conjI impI)
  show "K u 0 = K u' 0"
    by (cases "resolveArgs f evaluatedArgs args kwargs")
      (simp_all add: K_def keyFromArgs_def userItems_def)
next
  assume asm: "wf_pyfunction f \<and>
          (\<forall>k \<in> fst ` set kwargs. k \<in> set evaluatedArgs \<longrightarrow>
             k \<notin> set (take (length args) (argsOrder_of f)))"
  have "\<exists>res. resolveArgs f evaluatedArgs args kwargs = Inr res"
    by (rule resolveArgs_ok [OF conjunct1 [OF asm] conjunct2 [OF asm]])
  then obtain res where "resolveArgs f evaluatedArgs args kwargs = Inr res"
    by (rule exE)
  then show "K (Some a) 1 = Inr None"
    by (simp add: K_def keyFromArgs_def userItems_def)
next
  show "K (Some a) 2 = K (Some b) 2"
    by (cases "resolveArgs f evaluatedArgs args kwargs")
      (simp_all add: K_def keyFromArgs_def userItems_def)
next
  show "K u m = (case L u m of Inl e \<Rightarrow> Inl e | Inr None \<Rightarrow> Inr None
                 | Inr (Some r) \<Rightarrow> Inr (Some (digest r)))"
    unfolding K_def L_def by (rule keyFromArgs_digest)
next
  assume "\<exists>k0. K None 0 = Inr (Some k0)"
  then have "\<exists>k0. keyFromArgs digest (ctx\<lparr>ctx_user := None\<rparr>) f 0 languageSensitive
      evaluatedArgs pth args kwargs = Inr (Some k0)"
    by (simp add: K_def)
  then obtain r0 where H: "keyFromArgs (\<lambda>items. items) (ctx\<lparr>ctx_user := None\<rparr>) f 0
      languageSensitive evaluatedArgs pth args kwargs = Inr (Some r0)"
    by (rule keyFromArgs_digest_Some)
  have "\<exists>ra rb.
      keyFromArgs (\<lambda>items. items) (ctx\<lparr>ctx_user := None, ctx_user := Some a\<rparr>) f 2
        languageSensitive evaluatedArgs pth args kwargs = Inr (Some ra) \<and>
      keyFromArgs (\<lambda>items. items) (ctx\<lparr>ctx_user := None, ctx_user := None\<rparr>) f 2
        languageSensitive evaluatedArgs pth args kwargs = Inr (Some rb) \<and> ra \<noteq> rb"
    by (rule item_lists_differ [OF H, of _ _ "PyStr (ustr ''__ISUSER'')" _ PyNone])
      (simp_all add: userItems_def)
  then show "\<exists>ra rn. L (Some a) 2 = Inr (Some ra) \<and> L None 2 = Inr (Some rn) \<and> ra \<noteq> rn"
    by (simp add: L_def)
next
  assume asm: "(\<exists>k0. K None 0 = Inr (Some k0)) \<and> user_key a \<noteq> user_key b"
  then have "\<exists>k0. keyFromArgs digest (ctx\<lparr>ctx_user := None\<rparr>) f 0 languageSensitive
      evaluatedArgs pth args kwargs = Inr (Some k0)"
    by (simp add: K_def)
  then obtain r0 where H: "keyFromArgs (\<lambda>items. items) (ctx\<lparr>ctx_user := None\<rparr>) f 0
      languageSensitive evaluatedArgs pth args kwargs = Inr (Some r0)"
    by (rule keyFromArgs_digest_Some)
  have "\<exists>ra rb.
      keyFromArgs (\<lambda>items. items) (ctx\<lparr>ctx_user := None, ctx_user := Some a\<rparr>) f 3
        languageSensitive evaluatedArgs pth args kwargs = Inr (Some ra) \<and>
      keyFromArgs (\<lambda>items. items) (ctx\<lparr>ctx_user := None, ctx_user := Some b\<rparr>) f 3
        languageSensitive evaluatedArgs pth args kwargs = Inr (Some rb) \<and> ra \<noteq> rb"
    using asm
    by (intro item_lists_differ [OF H, of _ _ "user_key a" _ "user_key b"])
      (simp_all add: userItems_def)
  then show "\<exists>ra rb. L (Some a) 3 = Inr (Some ra) \<and> L (Some b) 3 = Inr (Some rb) \<and> ra \<noteq> rb"
    by (simp add: L_def)
qed

theorem keyFromArgs_userSensitive_witness:
  "wf_pyfunction render \<and>
   keyFromArgs name_digest (guest_ctx\<lparr>ctx_user := None\<rparr>) render 0 False
     [ustr ''id'', ustr ''order''] (ustr ''/page/view'') [PyInt 5] []
     = Inr (Some (ustr ''__appVersion__pathidorder'')) \<and>
   user_key alice \<noteq> user_key bob \<and>
   keyFromArgs name_digest (guest_ctx\<lparr>ctx_user := Some alice\<rparr>) render 1 False
     [ustr ''id'', ustr ''order''] (ustr ''/page/view'') [PyInt 5] [] = Inr None \<and>
   keyFromArgs (\<lambda>items. items) (guest_ctx\<lparr>ctx_user := Some alice\<rparr>) render 2 False
     [ustr ''id'', ustr ''order''] (ustr ''/page/view'') [PyInt 5] [] \<noteq>
   keyFromArgs (\<lambda>items. items) (guest_ctx\<lparr>ctx_user := None\<rparr>) render 2 False
     [ustr ''id'', ustr ''order''] (ustr ''/page/view'') [PyInt 5] [] \<and>
   keyFromArgs (\<lambda>items. items) (guest_ctx\<lparr>ctx_user := Some alice\<rparr>) render 3 False
     [ustr ''id'', ustr ''order''] (ustr ''/page/view'') [PyInt 5] [] \<noteq>
   keyFromArgs (\<lambda>items. items) (guest_ctx\<lparr>ctx_user := Some bob\<rparr>) render 3 False
     [ustr ''id'', ustr ''order''] (ustr ''/page/view'') [PyInt 5] []"
proof -
  have hw: "wf_pyfunction render"
    by (simp add: wf_pyfunction_def render_def argsOrder_of_def)
  have hd: "\<forall>k \<in> fst ` set ([] :: pydict). k \<in> set [ustr ''id'', ustr ''order''] \<longrightarrow>
      k \<notin> set (take (length [PyInt 5]) (argsOrder_of render))"
    by simp
  have h0: "keyFromArgs name_digest (guest_ctx\<lparr>ctx_user := None\<rparr>) render 0 False
     [ustr ''id'', ustr ''order''] (ustr ''/page/view'') [PyInt 5] []
     = Inr (Some (ustr ''__appVersion__pathidorder''))"
    by (simp add: concrete_defs name_digest_def)
  have hu: "user_key alice \<noteq> user_key bob"
    by (simp add: alice_def bob_def ustr_def)
  note T = keyFromArgs_userSensitive [where digest = name_digest
      and ctx = guest_ctx and f = render and languageSensitive = False
      and evaluatedArgs = "[ustr ''id'', ustr ''order'']" and pth = "ustr ''/page/view''"
      and args = "[PyInt 5]" and kwargs = "[]" and a = alice and b = bob
      and u = None and u' = None and m = 0]
  note T1 = T [THEN conjunct2, THEN conjunct1]
  note T2 = T [THEN conjunct2, THEN conjunct2, THEN conjunct2, THEN conjunct2, THEN conjunct1]
  note T3 = T [THEN conjunct2, THEN conjunct2, THEN conjunct2, THEN conjunct2, THEN conjunct2]
  have ex: "\<exists>k0. keyFromArgs name_digest (guest_ctx\<lparr>ctx_user := None\<rparr>) render 0 False
     [ustr ''id'', ustr ''order''] (ustr ''/page/view'') [PyInt 5] [] = Inr (Some k0)"
    using h0 by blast
  have c1: "keyFromArgs name_digest (guest_ctx\<lparr>ctx_user := Some alice\<rparr>) render 1 False
     [ustr ''id'', ustr ''order''] (ustr ''/page/view'') [PyInt 5] [] = Inr None"
    by (rule T1 [THEN mp, OF conjI [OF hw hd]])
  have c2: "keyFromArgs (\<lambda>items. items) (guest_ctx\<lparr>ctx_user := Some alice\<rparr>) render 2 False
     [ustr ''id'', ustr ''order''] (ustr ''/page/view'') [PyInt 5] [] \<noteq>
   keyFromArgs (\<lambda>items. items) (guest_ctx\<lparr>ctx_user := None\<rparr>) render 2 False
     [ustr ''id'', ustr ''order''] (ustr ''/page/view'') [PyInt 5] []"
    using T2 [THEN mp, OF ex] by force
  have c3: "keyFromArgs (\<lambda>items. items) (guest_ctx\<lparr>ctx_user := Some alice\<rparr>) render 3 False
     [ustr ''id'', ustr ''order''] (ustr ''/page/view'') [PyInt 5] [] \<noteq>
   keyFromArgs (\<lambda>items. items) (guest_ctx\<lparr>ctx_user := Some bob\<rparr>) render 3 False
     [ustr ''id'', ustr ''order''] (ustr ''/page/view'') [PyInt 5] []"
    using T3 [THEN mp, OF conjI [OF ex hu]] by force
  show ?thesis
    by (intro conjI hw h0 hu c1 c2 c3)
qed

text \<open>
  The hexdigest of SHA-512 has a fixed length, hence finitely many values. For every
  digest with finitely many values and every call that returns a key under mode 0, two
  callers with distinct identifiers exist that get the same key under mode 3.
\<close>

lemma finite_digest_collision:
  assumes fin: "finite (range digest)"
    and H: "keyFromArgs digest ctx f 0 ls ev pth args kwargs = Inr (Some k0)"
  shows "\<exists>a b. user_key a \<noteq> user_key b \<and>
           keyFromArgs digest (ctx\<lparr>ctx_user := Some a\<rparr>) f 3 ls ev pth args kwargs =
           keyFromArgs digest (ctx\<lparr>ctx_user := Some b\<rparr>) f 3 ls ev pth args kwargs"
proof -
  define g where "g = (\<lambda>n :: nat.
    keyFromArgs digest (ctx\<lparr>ctx_user := Some \<lparr>user_key = PyInt (int n)\<rparr>\<rparr>) f 3 ls ev pth
      args kwargs)"
  have "g n \<in> (\<lambda>k. Inr (Some k)) ` range digest" for n
  proof -
    obtain r where "g n = Inr (Some (digest (sort_key fst r)))"
      unfolding g_def
      using key_for_bucket [OF H, of "Some \<lparr>user_key = PyInt (int n)\<rparr>" 3 "PyInt (int n)"]
      by (auto simp: userItems_def)
    then show ?thesis by simp
  qed
  then have "range g \<subseteq> (\<lambda>k. Inr (Some k)) ` range digest"
    by blast
  then have "finite (range g)"
    using fin by (meson finite_imageI finite_subset)
  then have "\<not> inj g"
    using finite_image_iff [of g UNIV] infinite_UNIV_nat by blast
  then obtain n m where nm: "n \<noteq> m" "g n = g m"
    by (auto simp: inj_def)
  have "user_key \<lparr>user_key = PyInt (int n)\<rparr> \<noteq> user_key \<lparr>user_key = PyInt (int m)\<rparr>"
    using nm(1) by simp
  with nm(2) show ?thesis
    unfolding g_def by blast
qed

section \<open>Properties of wrapF\<close>

lemmas wrap_defs = wrapF_def rebuild_def requestPath_def slice_to_def db_Get_def db_Put_def
  cacheIsFresh_def timedelta_seconds_def datetime_sub_def datetime_max_def created_at_def
  name_digest_def page_handler_def cached_entry_def world_at_def

text \<open>
  C9. When caching is disabled in the configuration, or the request carries the bypass
  flag, or the path derived from the request is not one of \<open>urls\<close>, \<open>wrapF\<close> is the
  call of the handler and nothing else: the same result, the same world after it, so the
  wrapper neither reads the store (no \<open>DbGet\<close> is recorded) nor writes an entry.
\<close>

theorem wrapF_bypass:
  assumes "viur_disableCache (ctx_conf ctx) \<or> req_disableCache (ctx_request ctx) \<or>
           requestPath (ctx_request ctx) \<notin> set urls"
  shows "wrapF sha512 ctx code f urls userSensitive languageSensitive evaluatedArgs maxCacheTime
           self args kwargs s = f self args kwargs s"
  using assms by (auto simp: wrapF_def Let_def)

theorem wrapF_bypass_witness:
  "requestPath (ctx_request guest_ctx) \<notin> set [ustr ''/page''] \<and>
   wrapF name_digest guest_ctx render page_handler [ustr ''/page''] 0 False
     [ustr ''id'', ustr ''order''] (Some 60) () [PyInt 5] [] (world_at (created_at + 61000000)) =
   Inr (PyStr (ustr ''<html>new</html>''),
        \<lparr>w_db = [(ustr ''__appVersion__pathidorder'', cached_entry)], w_dbOps = [],
         w_contentType = ustr ''text/html'', w_now = created_at + 62000000\<rparr>)"
proof -
  have h: "requestPath (ctx_request guest_ctx) \<notin> set [ustr ''/page'']"
    by (simp add: requestPath_def slice_to_def guest_ctx_def ustr_def)
  have "wrapF name_digest guest_ctx render page_handler [ustr ''/page''] 0 False
     [ustr ''id'', ustr ''order''] (Some 60) () [PyInt 5] [] (world_at (created_at + 61000000)) =
     page_handler () [PyInt 5] [] (world_at (created_at + 61000000))"
    using h by (intro wrapF_bypass) simp
  then show ?thesis
    using h by (simp add: page_handler_def world_at_def)
qed

text \<open>
  C4. With \<open>maxCacheTime = T\<close> an entry older than \<open>T\<close> seconds is not to be served.
  For \<open>T = 0\<close> the test \<open>not maxCacheTime\<close> holds, as it does for \<open>None\<close>, and the
  entry is served whatever its age: five seconds after its creation the old page is
  returned and the handler, which would render the new one, is not called.
\<close>

theorem wrapF_zero_maxCacheTime_served:
  "wrapF name_digest guest_ctx render page_handler [ustr ''/page/view''] 0 False
     [ustr ''id'', ustr ''order''] (Some 0) () [PyInt 5] [] (world_at (created_at + 5000000)) =
   Inr (PyStr (ustr ''<html>old</html>''),
        \<lparr>w_db = [(ustr ''__appVersion__pathidorder'', cached_entry)],
         w_dbOps = [DbGet (ustr ''__appVersion__pathidorder'')],
         w_contentType = ustr ''text/plain'', w_now = created_at + 5000000\<rparr>)"
  by (simp add: wrap_defs concrete_defs)

text \<open>On every input \<open>maxCacheTime = 0\<close> behaves as \<open>maxCacheTime = None\<close>.\<close>

lemma wrapF_zero_is_forever:
  "wrapF sha512 ctx code f urls userSensitive languageSensitive evaluatedArgs (Some 0)
     self args kwargs s =
   wrapF sha512 ctx code f urls userSensitive languageSensitive evaluatedArgs None
     self args kwargs s"
proof -
  have z: "\<And>e now. cacheIsFresh (Some 0) e now = cacheIsFresh None e now"
    by (simp add: cacheIsFresh_def)
  show ?thesis
    unfolding wrapF_def z by (rule refl)
qed

text \<open>
  For a \<open>maxCacheTime\<close> of \<open>T\<close> seconds other than 0, and as long as \<open>now - T\<close> is a
  \<open>datetime\<close>, the test works: an entry younger than \<open>T\<close> is served without a call of
  the handler, any other is rebuilt and overwritten.
\<close>

lemma wrapF_fresh_or_stale:
  assumes "\<not> viur_disableCache (ctx_conf ctx)" and "\<not> req_disableCache (ctx_request ctx)"
    and "requestPath (ctx_request ctx) \<in> set urls"
    and "keyFromArgs sha512 ctx code userSensitive languageSensitive evaluatedArgs
           (requestPath (ctx_request ctx)) args kwargs = Inr (Some key)"
    and "key \<noteq> []"
    and "db_Get key (w_db s) = Some e"
    and "T \<noteq> 0"
    and "0 \<le> w_now s - T * 1000000" and "w_now s - T * 1000000 \<le> datetime_max"
    and "- 999999999 \<le> T div 86400" and "T div 86400 \<le> 999999999"
  shows "(w_now s < e_creationtime e + T * 1000000 \<longrightarrow>
            wrapF sha512 ctx code f urls userSensitive languageSensitive evaluatedArgs (Some T)
              self args kwargs s =
            Inr (e_data e, s\<lparr>w_dbOps := w_dbOps s @ [DbGet key],
                             w_contentType := e_content_type e\<rparr>)) \<and>
         (e_creationtime e + T * 1000000 \<le> w_now s \<longrightarrow>
            wrapF sha512 ctx code f urls userSensitive languageSensitive evaluatedArgs (Some T)
              self args kwargs s =
            (case f self args kwargs (s\<lparr>w_dbOps := w_dbOps s @ [DbGet key]\<rparr>) of
               Inl err \<Rightarrow> Inl err
             | Inr (res, s') \<Rightarrow>
                 Inr (res, s'\<lparr>w_db := db_Put key
                                  \<lparr>e_data = res, e_creationtime = w_now s',
                                   e_path = requestPath (ctx_request ctx),
                                   e_content_type = w_contentType s'\<rparr> (w_db s'),
                               w_dbOps := w_dbOps s' @ [DbPut key]\<rparr>)))"
  using assms
  by (auto simp: wrapF_def rebuild_def cacheIsFresh_def timedelta_seconds_def datetime_sub_def
      Let_def split: sum.splits prod.splits)

text \<open>Beyond that range the subtraction raises: with \<open>T\<close> of 64 000 000 000 seconds,
  more than the time since year 1, the request fails with \<open>OverflowError\<close>.\<close>

lemma wrapF_overflow:
  "wrapF name_digest guest_ctx render page_handler [ustr ''/page/view''] 0 False
     [ustr ''id'', ustr ''order''] (Some 64000000000) () [PyInt 5] []
     (world_at (created_at + 5000000)) = Inl OverflowError"
  by (simp add: wrap_defs concrete_defs)

section \<open>Properties of booleanBone\<close>

text \<open>
  C10. If the values cache holds the boolean \<open>v\<close> under \<open>name\<close>, \<open>serialize\<close> followed by
  \<open>unserialize\<close> on the entity it returned stores exactly \<open>v\<close> under \<open>name\<close> in the cache
  it is given. If \<open>name\<close> is absent, \<open>serialize\<close> writes \<open>False\<close> and the round trip
  stores \<open>False\<close>.
\<close>

theorem booleanBone_roundtrip:
  "(valuesCache name = Some (PyBool v) \<longrightarrow>
      unserialize cache name (serialize valuesCache name entity)
        = (True, cache(name \<mapsto> PyBool v))) \<and>
   (valuesCache name = None \<longrightarrow>
      serialize valuesCache name entity name = Some (PyBool False) \<and>
      unserialize cache name (serialize valuesCache name entity)
        = (True, cache(name \<mapsto> PyBool False)))"
  by (cases v) (simp_all add: serialize_def unserialize_def trueStrs_def ustr_def)

theorem booleanBone_roundtrip_witness:
  "[ustr ''active'' \<mapsto> PyBool True] (ustr ''active'') = Some (PyBool True) \<and>
   snd (unserialize Map.empty (ustr ''active'')
          (serialize [ustr ''active'' \<mapsto> PyBool True] (ustr ''active'') Map.empty))
     (ustr ''active'') = Some (PyBool True) \<and>
   [ustr ''active'' \<mapsto> PyBool False] (ustr ''active'') = Some (PyBool False) \<and>
   snd (unserialize [ustr ''active'' \<mapsto> PyBool True] (ustr ''active'')
          (serialize [ustr ''active'' \<mapsto> PyBool False] (ustr ''active'') Map.empty))
     (ustr ''active'') = Some (PyBool False) \<and>
   (Map.empty :: ustring \<rightharpoonup> pyval) (ustr ''active'') = None \<and>
   serialize Map.empty (ustr ''active'') Map.empty (ustr ''active'') = Some (PyBool False) \<and>
   snd (unserialize [ustr ''active'' \<mapsto> PyBool True] (ustr ''active'')
          (serialize Map.empty (ustr ''active'') Map.empty))
     (ustr ''active'') = Some (PyBool False)"
proof -
  have t: "[ustr ''active'' \<mapsto> PyBool True] (ustr ''active'') = Some (PyBool True)"
    by simp
  have f: "[ustr ''active'' \<mapsto> PyBool False] (ustr ''active'') = Some (PyBool False)"
    by simp
  have n: "(Map.empty :: ustring \<rightharpoonup> pyval) (ustr ''active'') = None"
    by simp
  have c1: "snd (unserialize Map.empty (ustr ''active'')
          (serialize [ustr ''active'' \<mapsto> PyBool True] (ustr ''active'') Map.empty))
     (ustr ''active'') = Some (PyBool True)"
    using booleanBone_roundtrip [of "[ustr ''active'' \<mapsto> PyBool True]" "ustr ''active''" True
        Map.empty Map.empty] t
    by simp
  have c2: "snd (unserialize [ustr ''active'' \<mapsto> PyBool True] (ustr ''active'')
          (serialize [ustr ''active'' \<mapsto> PyBool False] (ustr ''active'') Map.empty))
     (ustr ''active'') = Some (PyBool False)"
    using booleanBone_roundtrip [of "[ustr ''active'' \<mapsto> PyBool False]" "ustr ''active''" False
        "[ustr ''active'' \<mapsto> PyBool True]" Map.empty] f
    by simp
  have c3: "serialize Map.empty (ustr ''active'') Map.empty (ustr ''active'') = Some (PyBool False)
    \<and> snd (unserialize [ustr ''active'' \<mapsto> PyBool True] (ustr ''active'')
          (serialize Map.empty (ustr ''active'') Map.empty))
     (ustr ''active'') = Some (PyBool False)"
    using booleanBone_roundtrip [of Map.empty "ustr ''active''" True
        "[ustr ''active'' \<mapsto> PyBool True]" Map.empty] n
    by simp
  show ?thesis
    using t f n c1 c2 c3 by (intro conjI) simp_all
qed

end
